theory Spec2Isabelle
  imports Main
begin

section \<open>Resumable upload for drive (backend/drive/upload.go)\<close>

text \<open>
  A shallow embedding of \<^verbatim>\<open>backend/drive/upload.go\<close>: the negotiation
  \<^verbatim>\<open>Fs.Upload\<close>, the request builder \<^verbatim>\<open>makeRequest\<close>, the status probe
  \<^verbatim>\<open>transferStatus\<close>, the chunk send \<^verbatim>\<open>transferChunk\<close> and the transfer loop
  \<^verbatim>\<open>resumableUpload.Upload\<close>.

  Go's \<^verbatim>\<open>int64\<close> and \<^verbatim>\<open>int\<close> are modelled as \<open>int\<close>: the only arithmetic of the
  file is \<^verbatim>\<open>ContentLength - start\<close>, \<^verbatim>\<open>start + reqSize - 1\<close> and
  \<^verbatim>\<open>start += reqSize\<close> with \<open>0 \<le> start < ContentLength\<close> and
  \<open>reqSize \<le> ContentLength - start\<close>, which cannot leave the 64-bit range; the one
  place where the range matters, \<^verbatim>\<open>strconv.ParseInt\<close>, has its bound written out.
  A call that does not return normally (a nil-pointer panic, a loop that never ends) has
  the value \<open>None\<close>. The payload bytes (\<^verbatim>\<open>rx.Media\<close> and the \<^verbatim>\<open>readers\<close> package)
  are not part of the model: a request is recorded with its headers and its declared
  length.
\<close>

subsection \<open>Errors, requests, responses\<close>

datatype error =
    TransportError string \<comment> \<open>\<^verbatim>\<open>client.Do\<close> failed\<close>
  | ApiError int string \<comment> \<open>\<^verbatim>\<open>googleapi.CheckResponse\<close>: status code and body\<close>
  | DecodeError string \<comment> \<open>an error of the JSON decoder\<close>
  | JSONReaderError string \<comment> \<open>the metadata could not be serialised\<close>
  | NewRequestError string \<comment> \<open>\<^verbatim>\<open>http.NewRequest\<close> rejected the URL\<close>
  | UnexpectedReturnCode int \<comment> \<open>"unexpected http return code %v"\<close>
  | UnableToParseRange string \<comment> \<open>"unable to parse range %q"\<close>
  | IncompleteUpload int \<comment> \<open>\<^verbatim>\<open>fserrors.RetryErrorf\<close> "Incomplete upload - retry, last error %d"\<close>

record request =
  Method :: string
  URL :: string
  Query :: "(string \<times> string) list"
  ReqHeader :: "(string \<times> string) list"
  ReqContentLength :: int

record response =
  StatusCode :: int
  Header :: "(string \<times> string) list"
  Body :: string

text \<open>
  \<^verbatim>\<open>client.Do\<close> returns a pair \<^verbatim>\<open>(res, err)\<close>. With \<^verbatim>\<open>err == nil\<close> there is a
  response; with \<^verbatim>\<open>err != nil\<close> a response may or may not come along. The errors of
  the libraries (the HTTP client, the JSON encoder and decoder) are opaque values: the
  model keeps their message, and the constructor of \<open>error\<close> tells where an error comes
  from.
\<close>

datatype outcome = Ok response | Fail string "response option"

text \<open>
  What happened so far: the round trips made through the HTTP client, and the pacer's
  \<^verbatim>\<open>beginCall\<close> and \<^verbatim>\<open>endCall\<close> around each attempt it runs.
\<close>

datatype event = BeginCall | EndCall | RoundTrip request outcome

type_synonym trace = "event list"

text \<open>\<^verbatim>\<open>Header.Get\<close>: the value stored under the key, the empty string when there is none.\<close>

definition Header_Get :: "(string \<times> string) list \<Rightarrow> string \<Rightarrow> string" where
  "Header_Get h k = (case map_of h k of None \<Rightarrow> '''' | Some v \<Rightarrow> v)"

definition statusResumeIncomplete :: int where
  "statusResumeIncomplete = 308"

text \<open>
  \<^verbatim>\<open>googleapi.CheckResponse\<close> (google.golang.org/api): nil for a status code from 200 to
  299, otherwise an error that carries the code and the body.
\<close>

definition CheckResponse :: "response \<Rightarrow> error option" where
  "CheckResponse res =
     (if 200 \<le> StatusCode res \<and> StatusCode res \<le> 299 then None
      else Some (ApiError (StatusCode res) (Body res)))"

subsection \<open>Decimal numbers\<close>

text \<open>\<^verbatim>\<open>fmt.Sprintf("%v", n)\<close> for an integer: its decimal digits, with a minus sign.\<close>

definition digit_char :: "nat \<Rightarrow> char" where
  "digit_char d = ''0123456789'' ! d"

fun show_nat :: "nat \<Rightarrow> string" where
  "show_nat n = (if n < 10 then [digit_char n] else show_nat (n div 10) @ [digit_char (n mod 10)])"

declare show_nat.simps [simp del]

definition show_int :: "int \<Rightarrow> string" where
  "show_int i = (if i < 0 then CHR ''-'' # show_nat (nat (- i)) else show_nat (nat i))"

definition is_digit :: "char \<Rightarrow> bool" where
  "is_digit c = (48 \<le> (of_char c :: nat) \<and> (of_char c :: nat) \<le> 57)"

definition digit_val :: "char \<Rightarrow> int" where
  "digit_val c = int (of_char c) - 48"

text \<open>
  \<^verbatim>\<open>strconv.ParseInt(s, 10, 64)\<close> on a string of decimal digits (all the regular
  expression lets through): the value, or an error when it does not fit an \<^verbatim>\<open>int64\<close>.
\<close>

definition ParseInt :: "string \<Rightarrow> int option" where
  "ParseInt s =
     (let v = foldl (\<lambda>acc c. acc * 10 + digit_val c) 0 s
      in if s \<noteq> [] \<and> list_all is_digit s \<and> v \<le> 2 ^ 63 - 1 then Some v else None)"

text \<open>
  \<^verbatim>\<open>rangeRE = regexp.MustCompile(`^0\-(\d+)$`)\<close>; \<^verbatim>\<open>FindStringSubmatch\<close> returns the
  whole match and the group \<open>$1\<close>, or nothing.
\<close>

definition rangeRE_FindStringSubmatch :: "string \<Rightarrow> string list" where
  "rangeRE_FindStringSubmatch s =
     (case s of
        a # b # ds \<Rightarrow>
          if a = CHR ''0'' \<and> b = CHR ''-'' \<and> ds \<noteq> [] \<and> list_all is_digit ds then [s, ds] else []
      | _ \<Rightarrow> [])"

subsection \<open>What the file takes from outside\<close>

text \<open>
  The file uses, and does not define: the global \<^verbatim>\<open>chunkSize\<close>, the flag
  \<^verbatim>\<open>driveKeepRevisionForever\<close>, the constant \<^verbatim>\<open>partialFields\<close>, the field
  \<^verbatim>\<open>f.isTeamDrive\<close>, the HTTP client \<^verbatim>\<open>f.client\<close>, the pacer \<^verbatim>\<open>f.pacer\<close> with its
  number of tries, the classifier \<^verbatim>\<open>shouldRetry\<close>, the JSON encoder and decoder and the
  URL parser of \<^verbatim>\<open>http.NewRequest\<close>. They are parameters, collected in one record
  (\<open>'f\<close> is \<^verbatim>\<open>drive.File\<close>, \<open>'i\<close> the metadata handed to the negotiation):
  \<^item> \<open>client\<close> answers a request, given everything that happened before;
  \<^item> \<open>shouldRetry\<close> has the type it has in Go, \<^verbatim>\<open>func(error) (bool, error)\<close>;
  \<^item> \<open>Decode\<close> is \<^verbatim>\<open>json.NewDecoder(body).Decode(&rx.ret)\<close>: from the body and the
    present \<^verbatim>\<open>rx.ret\<close> to an error or nil, and the new \<^verbatim>\<open>rx.ret\<close>;
  \<^item> \<open>urlParses\<close> tells whether \<^verbatim>\<open>http.NewRequest\<close> accepts the URL.
\<close>

record ('f, 'i) env =
  chunkSize :: int
  driveKeepRevisionForever :: bool
  partialFields :: string
  isTeamDrive :: bool
  client :: "trace \<Rightarrow> request \<Rightarrow> outcome"
  retries :: nat
  shouldRetry :: "error option \<Rightarrow> bool \<times> error option"
  JSONReader :: "'i \<Rightarrow> string + string"
  Decode :: "string \<Rightarrow> 'f option \<Rightarrow> string option \<times> 'f option"
  urlParses :: "string \<Rightarrow> bool"

text \<open>\<^verbatim>\<open>client.Do(req)\<close>: one round trip, recorded.\<close>

definition client_Do :: "('f, 'i) env \<Rightarrow> request \<Rightarrow> trace \<Rightarrow> outcome \<times> trace" where
  "client_Do e req w = (let out = client e w req in (out, w @ [RoundTrip req out]))"

text \<open>
  Modelled from the spec: the pacer (\<^verbatim>\<open>f.pacer.Call\<close>, not in this file) is the shared
  retry/backoff primitive, "invoke with retry" on a closure that returns
  \<^verbatim>\<open>(again, err)\<close>: it runs the closure, and runs it again while the closure asks for it,
  up to a bound on the number of tries; it returns the error of the last try (nil when
  the bound is 0 and the closure never ran). Each try is bracketed by \<^verbatim>\<open>beginCall\<close>
  and \<^verbatim>\<open>endCall\<close>. The delays are not modelled. The state \<open>'s\<close> is what the closure
  captures and assigns.
\<close>

fun pacer_tries ::
  "nat \<Rightarrow> ('s \<Rightarrow> trace \<Rightarrow> ((bool \<times> error option) \<times> 's \<times> trace) option) \<Rightarrow>
   error option \<Rightarrow> 's \<Rightarrow> trace \<Rightarrow> (error option \<times> 's \<times> trace) option" where
  "pacer_tries 0 fn err s w = Some (err, s, w)"
| "pacer_tries (Suc n) fn err s w =
     (case fn s (w @ [BeginCall]) of
        None \<Rightarrow> None
      | Some ((again, err'), s', w') \<Rightarrow>
          if \<not> again then Some (err', s', w' @ [EndCall])
          else pacer_tries n fn err' s' (w' @ [EndCall]))"

definition pacer_Call ::
  "('f, 'i) env \<Rightarrow> ('s \<Rightarrow> trace \<Rightarrow> ((bool \<times> error option) \<times> 's \<times> trace) option) \<Rightarrow>
   's \<Rightarrow> trace \<Rightarrow> (error option \<times> 's \<times> trace) option" where
  "pacer_Call e fn s w = pacer_tries (retries e) fn None s w"

subsection \<open>The upload session and its requests\<close>

record 'f resumableUpload =
  remote :: string
  URI :: string
  MediaType :: string
  ContentLength :: int
  ret :: "'f option"

text \<open>
  \<^verbatim>\<open>makeRequest\<close> drops the error of \<^verbatim>\<open>http.NewRequest\<close>: when the session URI does
  not parse, \<^verbatim>\<open>req\<close> is nil and the assignment to \<^verbatim>\<open>req.ContentLength\<close> panics
  (\<open>None\<close>).
\<close>

definition makeRequest ::
  "('f, 'i) env \<Rightarrow> 'f resumableUpload \<Rightarrow> int \<Rightarrow> int \<Rightarrow> request option" where
  "makeRequest e rx start reqSize =
     (if \<not> urlParses e (URI rx) then None
      else Some \<lparr>Method = ''POST'', URL = URI rx, Query = [],
        ReqHeader =
          [(''Content-Range'',
            if reqSize \<noteq> 0
            then ''bytes '' @ show_int start @ ''-'' @ show_int (start + reqSize - 1) @ ''/''
                 @ show_int (ContentLength rx)
            else ''bytes */'' @ show_int (ContentLength rx)),
           (''Content-Type'', MediaType rx)],
        ReqContentLength = reqSize\<rparr>)"

subsection \<open>The status probe\<close>

definition transferStatus ::
  "('f, 'i) env \<Rightarrow> 'f resumableUpload \<Rightarrow> trace \<Rightarrow> ((error + int) \<times> trace) option" where
  "transferStatus e rx w =
     (case makeRequest e rx 0 0 of
        None \<Rightarrow> None
      | Some req \<Rightarrow>
          (case client_Do e req w of
             (Fail err _, w') \<Rightarrow> Some (Inl (TransportError err), w')
           | (Ok res, w') \<Rightarrow>
               if StatusCode res = 201 \<or> StatusCode res = 200 then Some (Inr (ContentLength rx), w')
               else if StatusCode res \<noteq> statusResumeIncomplete then
                 (case CheckResponse res of
                    Some err \<Rightarrow> Some (Inl err, w')
                  | None \<Rightarrow> Some (Inl (UnexpectedReturnCode (StatusCode res)), w'))
               else
                 (let Range = Header_Get (Header res) ''Range'';
                      m = rangeRE_FindStringSubmatch Range
                  in if length m = 2 then
                       (case ParseInt (m ! 1) of
                          Some start \<Rightarrow> Some (Inr start, w')
                        | None \<Rightarrow> Some (Inl (UnableToParseRange Range), w'))
                     else Some (Inl (UnableToParseRange Range), w'))))"

subsection \<open>Sending one chunk\<close>

text \<open>
  \<^verbatim>\<open>transferChunk\<close> returns the status code and the error, and may assign \<^verbatim>\<open>rx.ret\<close>
  through the decoder.
\<close>

definition transferChunk ::
  "('f, 'i) env \<Rightarrow> 'f resumableUpload \<Rightarrow> int \<Rightarrow> int \<Rightarrow> trace \<Rightarrow>
   ((int \<times> error option) \<times> 'f resumableUpload \<times> trace) option" where
  "transferChunk e rx start chunkSize' w =
     (case makeRequest e rx start chunkSize' of
        None \<Rightarrow> None
      | Some req \<Rightarrow>
          (case client_Do e req w of
             (Fail err _, w') \<Rightarrow> Some ((599, Some (TransportError err)), rx, w')
           | (Ok res, w') \<Rightarrow>
               if StatusCode res = statusResumeIncomplete then Some ((StatusCode res, None), rx, w')
               else
                 (case CheckResponse res of
                    Some err \<Rightarrow> Some ((StatusCode res, Some err), rx, w')
                  | None \<Rightarrow>
                      (case Decode e (Body res) (ret rx) of
                         (Some err, r) \<Rightarrow> Some ((598, Some (DecodeError err)), rx\<lparr>ret := r\<rparr>, w')
                       | (None, r) \<Rightarrow> Some ((StatusCode res, None), rx\<lparr>ret := r\<rparr>, w')))))"

subsection \<open>The transfer loop\<close>

text \<open>
  The closure handed to the pacer for the chunk at \<open>start\<close>. It assigns the variable
  \<^verbatim>\<open>StatusCode\<close> of \<^verbatim>\<open>Upload\<close> and, through \<^verbatim>\<open>transferChunk\<close>, \<^verbatim>\<open>rx.ret\<close>:
  the captured state is the pair of the two.
\<close>

definition sendChunk ::
  "('f, 'i) env \<Rightarrow> int \<Rightarrow> int \<Rightarrow> int \<times> 'f resumableUpload \<Rightarrow> trace \<Rightarrow>
   ((bool \<times> error option) \<times> (int \<times> 'f resumableUpload) \<times> trace) option" where
  "sendChunk e start reqSize s w =
     (case transferChunk e (snd s) start reqSize w of
        None \<Rightarrow> None
      | Some ((StatusCode', err), rx', w') \<Rightarrow>
          (let (again, err') = shouldRetry e err
           in if StatusCode' = statusResumeIncomplete \<or> StatusCode' = 201 \<or> StatusCode' = 200
              then Some ((False, None), (StatusCode', rx'), w')
              else Some ((again, err'), (StatusCode', rx'), w')))"

text \<open>
  The \<^verbatim>\<open>for start < rx.ContentLength\<close> loop and what follows it. With a chunk size of 0
  the cursor never moves and the loop need not end, so the loop is a partial function.
\<close>

partial_function (option) upload_loop ::
  "('f, 'i) env \<Rightarrow> int \<Rightarrow> int \<Rightarrow> 'f resumableUpload \<Rightarrow> trace \<Rightarrow>
   ((error + 'f) \<times> 'f resumableUpload \<times> trace) option" where
  "upload_loop e start StatusCode' rx w =
     (if start < ContentLength rx then
        (let reqSize = (if ContentLength rx - start \<ge> chunkSize e then chunkSize e
                        else ContentLength rx - start)
         in case pacer_Call e (sendChunk e start reqSize) (StatusCode', rx) w of
              None \<Rightarrow> None
            | Some (Some err, s, w') \<Rightarrow> Some (Inl err, snd s, w')
            | Some (None, s, w') \<Rightarrow> upload_loop e (start + reqSize) (fst s) (snd s) w')
      else
        (case ret rx of
           None \<Rightarrow> Some (Inl (IncompleteUpload StatusCode'), rx, w)
         | Some file \<Rightarrow> Some (Inr file, rx, w)))"

declare upload_loop.simps [code]

text \<open>
  \<^verbatim>\<open>resumableUpload.Upload\<close>: \<^verbatim>\<open>make([]byte, int(chunkSize))\<close> panics on a negative
  length; then the loop from \<^verbatim>\<open>start = 0\<close>, with \<^verbatim>\<open>StatusCode\<close> still 0.
\<close>

definition resumableUpload_Upload ::
  "('f, 'i) env \<Rightarrow> 'f resumableUpload \<Rightarrow> trace \<Rightarrow>
   ((error + 'f) \<times> 'f resumableUpload \<times> trace) option" where
  "resumableUpload_Upload e rx w = (if chunkSize e < 0 then None else upload_loop e 0 0 rx w)"

subsection \<open>The negotiation\<close>

text \<open>
  The query parameters, in the order \<^verbatim>\<open>params.Encode()\<close> writes them (sorted by key);
  the request keeps them as a list instead of the encoded string.
\<close>

definition upload_params :: "('f, 'i) env \<Rightarrow> string \<Rightarrow> (string \<times> string) list" where
  "upload_params e fileID =
     [(''alt'', ''json''), (''fields'', partialFields e)]
     @ (if driveKeepRevisionForever e then [(''keepRevisionForever'', ''true'')] else [])
     @ (if fileID \<noteq> '''' then [(''setModifiedDate'', ''true'')] else [])
     @ (if isTeamDrive e then [(''supportsTeamDrives'', ''true'')] else [])
     @ [(''uploadType'', ''resumable'')]"

text \<open>
  The closure handed to the pacer by \<^verbatim>\<open>Fs.Upload\<close>; it assigns the variable \<^verbatim>\<open>res\<close>.
  \<^verbatim>\<open>googleapi.Expand\<close> puts \<^verbatim>\<open>fileID\<close> in the place of \<^verbatim>\<open>{fileId}\<close>.
\<close>

definition negotiate ::
  "('f, 'i) env \<Rightarrow> int \<Rightarrow> string \<Rightarrow> string \<Rightarrow> 'i \<Rightarrow> response option \<Rightarrow> trace \<Rightarrow>
   ((bool \<times> error option) \<times> response option \<times> trace) option" where
  "negotiate e size' contentType fileID info res w =
     (let urls = ''https://www.googleapis.com/upload/drive/v3/files''
                 @ (if fileID \<noteq> '''' then ''/{fileId}'' else '''');
          method = (if fileID \<noteq> '''' then ''PATCH'' else ''POST'')
      in case JSONReader e info of
           Inl err \<Rightarrow> Some ((False, Some (JSONReaderError err)), res, w)
         | Inr body \<Rightarrow>
             if \<not> urlParses e urls then Some ((False, Some (NewRequestError urls)), res, w)
             else
               (let req = \<lparr>Method = method,
                      URL = ''https://www.googleapis.com/upload/drive/v3/files''
                            @ (if fileID \<noteq> '''' then ''/'' @ fileID else ''''),
                      Query = upload_params e fileID,
                      ReqHeader =
                        [(''Content-Type'', ''application/json; charset=UTF-8''),
                         (''X-Upload-Content-Type'', contentType),
                         (''X-Upload-Content-Length'', show_int size')],
                      ReqContentLength = int (length body)\<rparr>
                in case client_Do e req w of
                     (Fail err r, w') \<Rightarrow> Some (shouldRetry e (Some (TransportError err)), r, w')
                   | (Ok r, w') \<Rightarrow> Some (shouldRetry e (CheckResponse r), Some r, w')))"

text \<open>
  \<^verbatim>\<open>Fs.Upload\<close>. After a call of the pacer that returned no error, \<^verbatim>\<open>res.Header\<close> is
  read: a nil \<^verbatim>\<open>res\<close> panics.
\<close>

definition Fs_Upload ::
  "('f, 'i) env \<Rightarrow> int \<Rightarrow> string \<Rightarrow> string \<Rightarrow> 'i \<Rightarrow> string \<Rightarrow> trace \<Rightarrow>
   ((error + 'f) \<times> trace) option" where
  "Fs_Upload e size' contentType fileID info remote' w =
     (case pacer_Call e (negotiate e size' contentType fileID info) None w of
        None \<Rightarrow> None
      | Some (Some err, res, w') \<Rightarrow> Some (Inl err, w')
      | Some (None, None, w') \<Rightarrow> None
      | Some (None, Some res, w') \<Rightarrow>
          (let loc = Header_Get (Header res) ''Location'';
               rx = \<lparr>remote = remote', URI = loc, MediaType = contentType,
                     ContentLength = size', ret = None\<rparr>
           in case resumableUpload_Upload e rx w' of
                None \<Rightarrow> None
              | Some (r, rx', w'') \<Rightarrow> Some (r, w'')))"

section \<open>Vocabulary for the properties\<close>

text \<open>The outcomes of the round trips of a trace, in order.\<close>

fun outcomes :: "trace \<Rightarrow> outcome list" where
  "outcomes [] = []"
| "outcomes (RoundTrip req out # w) = out # outcomes w"
| "outcomes (ev # w) = outcomes w"

text \<open>The \<^verbatim>\<open>Content-Range\<close> values of the requests of a trace, in order.\<close>

fun sent_ranges :: "trace \<Rightarrow> string list" where
  "sent_ranges [] = []"
| "sent_ranges (RoundTrip req out # w) = Header_Get (ReqHeader req) ''Content-Range'' # sent_ranges w"
| "sent_ranges (ev # w) = sent_ranges w"

text \<open>
  \<open>paced inside w\<close>: every round trip of \<open>w\<close> happens between a \<^verbatim>\<open>beginCall\<close> and the
  next \<^verbatim>\<open>endCall\<close> of the pacer; \<open>inside\<close> tells whether \<open>w\<close> starts within a call.
\<close>

fun paced :: "bool \<Rightarrow> trace \<Rightarrow> bool" where
  "paced inside [] = True"
| "paced inside (BeginCall # w) = paced True w"
| "paced inside (EndCall # w) = paced False w"
| "paced inside (RoundTrip req out # w) = (inside \<and> paced inside w)"

text \<open>The events of successive tries of one request: one round trip per try.\<close>

fun tries_events :: "request \<Rightarrow> outcome list \<Rightarrow> trace" where
  "tries_events req [] = []"
| "tries_events req (out # outs) = [BeginCall, RoundTrip req out, EndCall] @ tries_events req outs"

text \<open>
  \<open>answers e w req outs\<close>: from the trace \<open>w\<close> on, the client answers the successive
  tries of \<open>req\<close> with \<open>outs\<close>.
\<close>

fun answers :: "('f, 'i) env \<Rightarrow> trace \<Rightarrow> request \<Rightarrow> outcome list \<Rightarrow> bool" where
  "answers e w req [] = True"
| "answers e w req (out # outs) =
     (client e (w @ [BeginCall]) req = out
      \<and> answers e (w @ [BeginCall, RoundTrip req out, EndCall]) req outs)"

text \<open>
  What a try makes of the outcome of its round trip, as a function of the outcome and of
  the present \<^verbatim>\<open>rx.ret\<close>: the status code and the error that \<^verbatim>\<open>transferChunk\<close>
  returns, and the new \<^verbatim>\<open>rx.ret\<close> (lemma \<open>transferChunk_seen\<close> below).
\<close>

definition seen ::
  "('f, 'i) env \<Rightarrow> 'f option \<Rightarrow> outcome \<Rightarrow> int \<times> error option \<times> 'f option" where
  "seen e r out =
     (case out of
        Fail err _ \<Rightarrow> (599, Some (TransportError err), r)
      | Ok res \<Rightarrow>
          if StatusCode res = 308 then (308, None, r)
          else if CheckResponse res \<noteq> None then (StatusCode res, CheckResponse res, r)
          else (case Decode e (Body res) r of
                  (Some err, r') \<Rightarrow> (598, Some (DecodeError err), r')
                | (None, r') \<Rightarrow> (StatusCode res, None, r')))"

text \<open>The same after a sequence of tries, from a status code, an error and \<^verbatim>\<open>rx.ret\<close>.\<close>

fun seen_all ::
  "('f, 'i) env \<Rightarrow> int \<times> error option \<times> 'f option \<Rightarrow> outcome list \<Rightarrow>
   int \<times> error option \<times> 'f option" where
  "seen_all e st [] = st"
| "seen_all e st (out # outs) = seen_all e (seen e (snd (snd st)) out) outs"

text \<open>What the closure of the loop returns to the pacer after such a try.\<close>

definition verdict :: "('f, 'i) env \<Rightarrow> int \<times> error option \<times> 'f option \<Rightarrow> bool \<times> error option" where
  "verdict e st =
     (if fst st = 308 \<or> fst st = 201 \<or> fst st = 200 then (False, None)
      else shouldRetry e (fst (snd st)))"

text \<open>
  \<open>all_again e r outs\<close>: each of the outcomes, met in this order from \<^verbatim>\<open>rx.ret = r\<close>,
  makes the closure ask for another try.
\<close>

fun all_again :: "('f, 'i) env \<Rightarrow> 'f option \<Rightarrow> outcome list \<Rightarrow> bool" where
  "all_again e r [] = True"
| "all_again e r (out # outs) =
     (fst (verdict e (seen e r out)) \<and> all_again e (snd (snd (seen e r out))) outs)"

text \<open>
  The chunks of the spec: from \<open>start\<close>, intervals \<open>(offset, length)\<close> of length
  \<open>min C remaining\<close>, up to \<open>len\<close>; and the header value of a chunk.
\<close>

function chunks_from :: "int \<Rightarrow> int \<Rightarrow> int \<Rightarrow> (int \<times> int) list" where
  "chunks_from C len start =
     (if 0 < C \<and> start < len
      then (start, min C (len - start)) # chunks_from C len (start + min C (len - start))
      else [])"
  by pat_completeness auto
termination
  by (relation "measure (\<lambda>(C, len, start). nat (len - start))") auto

declare chunks_from.simps [simp del]

definition content_range :: "int \<Rightarrow> int \<times> int \<Rightarrow> string" where
  "content_range len c =
     ''bytes '' @ show_int (fst c) @ ''-'' @ show_int (fst c + snd c - 1) @ ''/'' @ show_int len"

subsection \<open>A scripted server, for concrete runs\<close>

text \<open>
  The client answers the \<open>n\<close>-th round trip with the \<open>n\<close>-th outcome of a script, and
  with a transport error once the script is used up. The classifier retries the
  transport errors of a broken connection and the 5xx statuses, and hands the error back.
  The decoder rejects an empty body and stores any other body as the record.
\<close>

definition replay :: "outcome list \<Rightarrow> trace \<Rightarrow> request \<Rightarrow> outcome" where
  "replay script w req =
     (let n = length (outcomes w)
      in if n < length script then script ! n else Fail ''EOF'' None)"

definition classify :: "error option \<Rightarrow> bool \<times> error option" where
  "classify err =
     (case err of
        Some (TransportError m) \<Rightarrow> (m = ''connection reset'' \<or> m = ''EOF'', err)
      | Some (ApiError c b) \<Rightarrow> (500 \<le> c \<and> c < 600, err)
      | _ \<Rightarrow> (False, err))"

definition scripted :: "outcome list \<Rightarrow> (string, string) env" where
  "scripted script =
     \<lparr>chunkSize = 4, driveKeepRevisionForever = False, partialFields = ''id'',
      isTeamDrive = False, client = replay script, retries = 10, shouldRetry = classify,
      JSONReader = Inr,
      Decode = (\<lambda>body r. if body = '''' then (Some ''EOF'', r)
                          else (None, Some body)),
      urlParses = (\<lambda>u. True)\<rparr>"

definition resp :: "int \<Rightarrow> (string \<times> string) list \<Rightarrow> string \<Rightarrow> outcome" where
  "resp c h b = Ok \<lparr>StatusCode = c, Header = h, Body = b\<rparr>"

definition session :: "int \<Rightarrow> string resumableUpload" where
  "session len =
     \<lparr>remote = ''a.txt'', URI = ''https://upload/session/1'', MediaType = ''text/plain'',
      ContentLength = len, ret = None\<rparr>"

text \<open>The request of a chunk of \<open>session\<close>, written out: its length and its range.\<close>

definition chunk_req :: "int \<Rightarrow> string \<Rightarrow> request" where
  "chunk_req n rng =
     \<lparr>Method = ''POST'', URL = ''https://upload/session/1'', Query = [],
      ReqHeader = [(''Content-Range'', rng), (''Content-Type'', ''text/plain'')],
      ReqContentLength = n\<rparr>"

text \<open>
  Runs of a 10-byte upload in chunks of 4: the server acknowledges every chunk and ends
  with 201 and the record (scenario A); the second chunk meets two transport errors
  before its 308 (scenario B); the server acknowledges every chunk with 308 and never
  sends a final status.
\<close>

definition scenario_A :: "(string, string) env" where
  "scenario_A = scripted [resp 308 [] '''', resp 308 [] '''', resp 201 [] ''f1'']"

definition scenario_B :: "(string, string) env" where
  "scenario_B =
     scripted [resp 308 [] '''', Fail ''connection reset'' None, Fail ''connection reset'' None,
       resp 308 [] '''', resp 201 [] ''f1'']"

definition never_final :: "(string, string) env" where
  "never_final = scripted [resp 308 [] '''', resp 308 [] '''', resp 308 [] '''']"

text \<open>
  The negotiation request for a new file of the given size with the metadata \<open>''{}''\<close>,
  written out.
\<close>

definition negotiation_req :: "int \<Rightarrow> request" where
  "negotiation_req len =
     \<lparr>Method = ''POST'', URL = ''https://www.googleapis.com/upload/drive/v3/files'',
      Query = [(''alt'', ''json''), (''fields'', ''id''), (''uploadType'', ''resumable'')],
      ReqHeader =
        [(''Content-Type'', ''application/json; charset=UTF-8''),
         (''X-Upload-Content-Type'', ''text/plain''),
         (''X-Upload-Content-Length'', show_int len)],
      ReqContentLength = 2\<rparr>"


text \<open>
  A server whose negotiation answer carries no \<^verbatim>\<open>Location\<close>, behind a client that
  refuses a request whose URL is empty, as \<^verbatim>\<open>net/http\<close> does.
\<close>

definition no_session :: "(string, string) env" where
  "no_session =
     (scripted [resp 200 [] ''''])
       \<lparr>client := (\<lambda>w req. if URL req = '''' then Fail ''unsupported protocol scheme'' None
                           else replay [resp 200 [] ''''] w req)\<rparr>"

section \<open>The status probe\<close>

subsection \<open>Printing and parsing a number\<close>

lemma digit_char_props:
  assumes "d < 10"
  shows "is_digit (digit_char d)" and "digit_val (digit_char d) = int d"
proof -
  from assms have "d = 0 \<or> d = 1 \<or> d = 2 \<or> d = 3 \<or> d = 4 \<or> d = 5 \<or> d = 6
    \<or> d = 7 \<or> d = 8 \<or> d = 9"
    by arith
  then have "is_digit (digit_char d) \<and> digit_val (digit_char d) = int d"
    by (elim disjE) (simp_all add: digit_char_def is_digit_def digit_val_def)
  then show "is_digit (digit_char d)" and "digit_val (digit_char d) = int d"
    by simp_all
qed

lemma show_nat_digits: "show_nat n \<noteq> [] \<and> list_all is_digit (show_nat n)"
proof (induction n rule: show_nat.induct)
  case (1 n)
  show ?case
  proof (cases "n < 10")
    case True
    then show ?thesis
      by (subst (1 2) show_nat.simps) (simp add: digit_char_props)
  next
    case False
    with 1 show ?thesis
      by (subst (1 2) show_nat.simps) (simp add: digit_char_props)
  qed
qed

lemma show_nat_value: "foldl (\<lambda>acc c. acc * 10 + digit_val c) 0 (show_nat n) = int n"
proof (induction n rule: show_nat.induct)
  case (1 n)
  show ?case
  proof (cases "n < 10")
    case True
    then show ?thesis
      by (subst show_nat.simps) (simp add: digit_char_props)
  next
    case False
    then have "foldl (\<lambda>acc c. acc * 10 + digit_val c) 0 (show_nat n)
      = int (n div 10) * 10 + int (n mod 10)"
      using 1 by (subst show_nat.simps) (simp add: digit_char_props)
    then show ?thesis
      by (simp add: zdiv_int zmod_int)
  qed
qed

lemma ParseInt_show_nat: "int n \<le> 2 ^ 63 - 1 \<Longrightarrow> ParseInt (show_nat n) = Some (int n)"
  by (simp add: ParseInt_def show_nat_digits show_nat_value)

lemma rangeRE_show_nat:
  "rangeRE_FindStringSubmatch (''0-'' @ show_nat n) = [''0-'' @ show_nat n, show_nat n]"
  by (simp add: rangeRE_FindStringSubmatch_def show_nat_digits)

lemma transferStatus_308_last_index:
  assumes "makeRequest e rx 0 0 = Some req"
    and "client e w req = Ok res"
    and "StatusCode res = 308"
    and "Header_Get (Header res) ''Range'' = ''0-'' @ show_nat n"
    and "int n \<le> 2 ^ 63 - 1"
  shows "transferStatus e rx w = Some (Inr (int n), w @ [RoundTrip req (Ok res)])"
  using assms
  by (simp add: transferStatus_def client_Do_def statusResumeIncomplete_def
      rangeRE_show_nat ParseInt_show_nat Let_def del: append.simps)

text \<open>
  Claim C1. On a 308 answer whose \<^verbatim>\<open>Range\<close> header is \<open>0-N\<close> the probe is to return
  the committed offset \<open>N + 1\<close>: 100 for \<^verbatim>\<open>Range: 0-99\<close>. The code returns the group
  \<open>$1\<close> itself, the last byte index: lemma \<open>transferStatus_308_last_index\<close> for every
  \<open>N\<close> that fits an \<^verbatim>\<open>int64\<close>, and here the run on \<^verbatim>\<open>Range: 0-99\<close>, which returns
  99.
\<close>

theorem transferStatus_Range_0_99:
  "transferStatus (scripted [resp 308 [(''Range'', ''0-99'')] '''']) (session 1000) []
   = Some (Inr 99,
       [RoundTrip
          \<lparr>Method = ''POST'', URL = ''https://upload/session/1'', Query = [],
           ReqHeader = [(''Content-Range'', ''bytes */1000''), (''Content-Type'', ''text/plain'')],
           ReqContentLength = 0\<rparr>
          (resp 308 [(''Range'', ''0-99'')] '''')])"
  by code_simp

section \<open>One try, and the tries of one chunk\<close>

lemma makeRequest_ret: "makeRequest e (rx\<lparr>ret := r\<rparr>) start n = makeRequest e rx start n"
  by (simp add: makeRequest_def)

lemma transferChunk_seen:
  assumes "makeRequest e rx start n = Some req"
  shows "transferChunk e rx start n w =
    Some ((fst (seen e (ret rx) (client e w req)), fst (snd (seen e (ret rx) (client e w req)))),
      rx\<lparr>ret := snd (snd (seen e (ret rx) (client e w req)))\<rparr>,
      w @ [RoundTrip req (client e w req)])"
  using assms
  by (cases "client e w req")
    (auto simp: transferChunk_def client_Do_def seen_def statusResumeIncomplete_def Let_def
      split: option.splits prod.splits)

lemma transferChunk_panics:
  "makeRequest e rx start n = None \<Longrightarrow> transferChunk e rx start n w = None"
  by (simp add: transferChunk_def)

lemma sendChunk_seen:
  assumes "makeRequest e rx start n = Some req"
  shows "sendChunk e start n (sc, rx) w =
    Some (verdict e (seen e (ret rx) (client e w req)),
      (fst (seen e (ret rx) (client e w req)),
       rx\<lparr>ret := snd (snd (seen e (ret rx) (client e w req)))\<rparr>),
      w @ [RoundTrip req (client e w req)])"
  by (simp add: sendChunk_def transferChunk_seen [OF assms] verdict_def
      statusResumeIncomplete_def split: prod.splits)

lemma sendChunk_panics:
  "makeRequest e rx start n = None \<Longrightarrow> sendChunk e start n (sc, rx) w = None"
  by (simp add: sendChunk_def transferChunk_panics)

lemma seen_all_snoc:
  "seen_all e st (outs @ [out]) = seen e (snd (snd (seen_all e st outs))) out"
  by (induction outs arbitrary: st) simp_all

lemma pacer_tries_sendChunk:
  assumes "pacer_tries k (sendChunk e start n) err (sc, rx) w = Some (err', (sc', rx'), w')"
  shows "\<exists>outs req. length outs \<le> k \<and> (0 < k \<longrightarrow> outs \<noteq> [])
     \<and> (outs \<noteq> [] \<longrightarrow> makeRequest e rx start n = Some req)
     \<and> answers e w req outs
     \<and> w' = w @ tries_events req outs
     \<and> rx' = rx\<lparr>ret := snd (snd (seen_all e (sc, terr, ret rx) outs))\<rparr>
     \<and> sc' = fst (seen_all e (sc, terr, ret rx) outs)
     \<and> err' = (if outs = [] then err else snd (verdict e (seen_all e (sc, terr, ret rx) outs)))
     \<and> all_again e (ret rx) (butlast outs)"
  using assms
proof (induction k arbitrary: err sc rx w terr)
  case 0
  then show ?case by (intro exI [of _ "[]"]) simp
next
  case (Suc k)
  show ?case
  proof (cases "makeRequest e rx start n")
    case None
    with Suc.prems show ?thesis by (simp add: sendChunk_panics)
  next
    case (Some req)
    define out where "out = client e (w @ [BeginCall]) req"
    define st where "st = seen e (ret rx) out"
    define rx1 where "rx1 = rx\<lparr>ret := snd (snd st)\<rparr>"
    define w1 where "w1 = w @ [BeginCall, RoundTrip req out, EndCall]"
    have step: "sendChunk e start n (sc, rx) (w @ [BeginCall])
      = Some (verdict e st, (fst st, rx1), w @ [BeginCall, RoundTrip req out])"
      by (simp add: sendChunk_seen [OF Some] out_def st_def rx1_def)
    show ?thesis
    proof (cases "fst (verdict e st)")
      case False
      with Suc.prems step have res: "err' = snd (verdict e st)" "sc' = fst st" "rx' = rx1" "w' = w1"
        by (simp_all add: w1_def split: prod.splits)
      show ?thesis
        by (intro exI [of _ "[out]"] exI [of _ req])
          (simp add: res Some out_def st_def rx1_def w1_def)
    next
      case True
      with Suc.prems step
      have rest: "pacer_tries k (sendChunk e start n) (snd (verdict e st)) (fst st, rx1) w1
        = Some (err', (sc', rx'), w')"
        by (simp add: w1_def split: prod.splits)
      have req1: "makeRequest e rx1 start n = Some req"
        by (simp add: rx1_def makeRequest_ret Some)
      from Suc.IH [OF rest, of "fst (snd st)"] obtain outs req' where outs:
        "length outs \<le> k"
        "outs \<noteq> [] \<longrightarrow> makeRequest e rx1 start n = Some req'"
        "answers e w1 req' outs"
        "w' = w1 @ tries_events req' outs"
        "rx' = rx1\<lparr>ret := snd (snd (seen_all e (fst st, fst (snd st), ret rx1) outs))\<rparr>"
        "sc' = fst (seen_all e (fst st, fst (snd st), ret rx1) outs)"
        "err' = (if outs = [] then snd (verdict e st)
                 else snd (verdict e (seen_all e (fst st, fst (snd st), ret rx1) outs)))"
        "all_again e (ret rx1) (butlast outs)"
        by blast
      have st_eq: "(fst st, fst (snd st), ret rx1) = st"
        by (simp add: rx1_def)
      have w'_eq: "w' = w @ tries_events req (out # outs)"
        using outs(2,4) req1 by (cases "outs = []") (auto simp: w1_def)
      have ans: "answers e w req (out # outs)"
        using outs(2,3) req1 by (cases "outs = []") (auto simp: w1_def out_def)
      have again: "all_again e (ret rx) (butlast (out # outs))"
        using outs(8) True by (simp add: st_def rx1_def)
      show ?thesis
        using outs(1,5,6,7) w'_eq ans again Some
        by (intro exI [of _ "out # outs"] exI [of _ req])
          (simp add: st_eq st_def [symmetric] rx1_def)
    qed
  qed
qed

lemma pacer_tries_until_308:
  assumes "makeRequest e rx start n = Some req"
    and "answers e w req (outs @ [Ok res])"
    and "all_again e (ret rx) outs"
    and "StatusCode res = 308"
    and "length outs < k"
  shows "pacer_tries k (sendChunk e start n) err (sc, rx) w =
    Some (None, (308, rx\<lparr>ret := snd (snd (seen_all e (sc, terr, ret rx) outs))\<rparr>),
      w @ tries_events req (outs @ [Ok res]))"
  using assms
proof (induction outs arbitrary: k err sc rx w terr)
  case Nil
  then obtain k' where k: "k = Suc k'"
    by (cases k) simp_all
  from Nil have out: "client e (w @ [BeginCall]) req = Ok res"
    by simp
  show ?case
    using Nil.prems(4)
    by (simp add: k sendChunk_seen [OF Nil.prems(1)] out seen_def verdict_def)
next
  case (Cons out outs)
  then obtain k' where k: "k = Suc k'" and k': "length outs < k'"
    by (cases k) simp_all
  from Cons.prems have out: "client e (w @ [BeginCall]) req = out"
    and rest: "answers e (w @ [BeginCall, RoundTrip req out, EndCall]) req (outs @ [Ok res])"
    and again: "fst (verdict e (seen e (ret rx) out))"
    and again': "all_again e (snd (snd (seen e (ret rx) out))) outs"
    by simp_all
  define rx1 where "rx1 = rx\<lparr>ret := snd (snd (seen e (ret rx) out))\<rparr>"
  have req1: "makeRequest e rx1 start n = Some req"
    by (simp add: rx1_def makeRequest_ret Cons.prems(1))
  have again1: "all_again e (ret rx1) outs"
    using again' by (simp add: rx1_def)
  have "pacer_tries k (sendChunk e start n) err (sc, rx) w =
    pacer_tries k' (sendChunk e start n) (snd (verdict e (seen e (ret rx) out)))
      (fst (seen e (ret rx) out), rx1) (w @ [BeginCall, RoundTrip req out, EndCall])"
    using again
    by (cases "verdict e (seen e (ret rx) out)")
      (simp add: k sendChunk_seen [OF Cons.prems(1)] out rx1_def)
  also have "\<dots> = Some (None,
      (308, rx1\<lparr>ret := snd (snd (seen_all e (fst (seen e (ret rx) out),
         fst (snd (seen e (ret rx) out)), ret rx1) outs))\<rparr>),
      (w @ [BeginCall, RoundTrip req out, EndCall]) @ tries_events req (outs @ [Ok res]))"
    by (rule Cons.IH [OF req1 rest again1 Cons.prems(4) k'])
  finally show ?case
    by (simp add: rx1_def)
qed

lemma pacer_tries_stops:
  assumes "makeRequest e rx start n = Some req"
    and "answers e w req outs"
    and "outs \<noteq> []"
    and "all_again e (ret rx) (butlast outs)"
    and "length outs \<le> k"
    and "length outs = k \<or> \<not> fst (verdict e (seen_all e (sc, terr, ret rx) outs))"
  shows "pacer_tries k (sendChunk e start n) err (sc, rx) w =
    Some (snd (verdict e (seen_all e (sc, terr, ret rx) outs)),
      (fst (seen_all e (sc, terr, ret rx) outs),
       rx\<lparr>ret := snd (snd (seen_all e (sc, terr, ret rx) outs))\<rparr>),
      w @ tries_events req outs)"
  using assms
proof (induction outs arbitrary: k err sc rx w terr)
  case Nil
  then show ?case by simp
next
  case (Cons out outs)
  then obtain k' where k: "k = Suc k'" and k': "length outs \<le> k'"
    by (cases k) simp_all
  from Cons.prems have out: "client e (w @ [BeginCall]) req = out"
    by simp
  define st where "st = seen e (ret rx) out"
  define rx1 where "rx1 = rx\<lparr>ret := snd (snd st)\<rparr>"
  have step: "sendChunk e start n (sc, rx) (w @ [BeginCall])
    = Some (verdict e st, (fst st, rx1), w @ [BeginCall, RoundTrip req out])"
    by (simp add: sendChunk_seen [OF Cons.prems(1)] out st_def rx1_def)
  show ?case
  proof (cases outs)
    case Nil
    with Cons.prems(6) k have last: "k' = 0 \<or> \<not> fst (verdict e st)"
      by (simp add: st_def)
    show ?thesis
    proof (cases "fst (verdict e st)")
      case False
      then show ?thesis
        by (cases "verdict e st") (simp add: k step Nil st_def [symmetric] rx1_def)
    next
      case True
      with last have "k' = 0"
        by simp
      with True show ?thesis
        by (cases "verdict e st") (simp add: k step Nil st_def [symmetric] rx1_def)
    qed
  next
    case (Cons out2 outs2)
    with Cons.prems(4) have again: "fst (verdict e st)"
      and again': "all_again e (ret rx1) (butlast outs)"
      by (simp_all add: st_def rx1_def)
    have req1: "makeRequest e rx1 start n = Some req"
      by (simp add: rx1_def makeRequest_ret Cons.prems(1))
    from Cons.prems(2) out
    have ans: "answers e (w @ [BeginCall, RoundTrip req out, EndCall]) req outs"
      by simp
    have ne: "outs \<noteq> []"
      using Cons by simp
    have st_eq: "(fst st, fst (snd st), ret rx1) = st"
      by (simp add: rx1_def)
    have stop: "length outs = k'
      \<or> \<not> fst (verdict e (seen_all e (fst st, fst (snd st), ret rx1) outs))"
      using Cons.prems(6) k unfolding st_eq by (simp add: st_def)
    have "pacer_tries k (sendChunk e start n) err (sc, rx) w =
      pacer_tries k' (sendChunk e start n) (snd (verdict e st)) (fst st, rx1)
        (w @ [BeginCall, RoundTrip req out, EndCall])"
      using again by (cases "verdict e st") (simp add: k step)
    also note Cons.IH [OF req1 ans ne again' k' stop, of "snd (verdict e st)"]
    finally show ?thesis
      by (simp add: st_eq st_def [symmetric] rx1_def)
  qed
qed

section \<open>Runs of the transfer loop\<close>

lemma outcomes_append: "outcomes (a @ b) = outcomes a @ outcomes b"
  by (induction a rule: outcomes.induct) simp_all

lemma outcomes_tries_events: "outcomes (tries_events req outs) = outs"
  by (induction outs) simp_all

lemma sent_ranges_append: "sent_ranges (a @ b) = sent_ranges a @ sent_ranges b"
  by (induction a rule: sent_ranges.induct) simp_all

lemma sent_ranges_tries_events:
  "sent_ranges (tries_events req outs)
   = replicate (length outs) (Header_Get (ReqHeader req) ''Content-Range'')"
  by (induction outs) simp_all

lemma paced_tries_events: "paced False (tries_events req outs @ w) = paced False w"
  by (induction outs) simp_all

lemma seen_all_append: "seen_all e st (a @ b) = seen_all e (seen_all e st a) b"
  by (induction a arbitrary: st) simp_all

lemma seen_all_init:
  "seen_all e (fst (seen_all e (sc, x, r) a), y, snd (snd (seen_all e (sc, x, r) a))) b
   = (if b = [] then (fst (seen_all e (sc, x, r) a), y, snd (snd (seen_all e (sc, x, r) a)))
      else seen_all e (sc, x, r) (a @ b))"
  by (cases b) (simp_all add: seen_all_append)

lemma upload_loop_run:
  assumes "upload_loop e start sc rx w = Some y"
  shows "\<exists>new. snd (snd y) = w @ new \<and> paced False new
    \<and> fst (snd y) = rx\<lparr>ret := snd (snd (seen_all e (sc, None, ret rx) (outcomes new)))\<rparr>
    \<and> (case fst y of
          Inr file \<Rightarrow> ret (fst (snd y)) = Some file
            \<and> (outcomes new = []
               \<or> snd (verdict e (seen_all e (sc, None, ret rx) (outcomes new))) = None)
        | Inl err \<Rightarrow>
            (err = IncompleteUpload (fst (seen_all e (sc, None, ret rx) (outcomes new)))
             \<and> ret (fst (snd y)) = None
             \<and> (outcomes new = []
                \<or> snd (verdict e (seen_all e (sc, None, ret rx) (outcomes new))) = None))
            \<or> (outcomes new \<noteq> []
               \<and> snd (verdict e (seen_all e (sc, None, ret rx) (outcomes new))) = Some err))"
proof (rule upload_loop.raw_induct [where P = "\<lambda>e start sc rx w y.
    \<exists>new. snd (snd y) = w @ new \<and> paced False new
    \<and> fst (snd y) = rx\<lparr>ret := snd (snd (seen_all e (sc, None, ret rx) (outcomes new)))\<rparr>
    \<and> (case fst y of
          Inr file \<Rightarrow> ret (fst (snd y)) = Some file
            \<and> (outcomes new = []
               \<or> snd (verdict e (seen_all e (sc, None, ret rx) (outcomes new))) = None)
        | Inl err \<Rightarrow>
            (err = IncompleteUpload (fst (seen_all e (sc, None, ret rx) (outcomes new)))
             \<and> ret (fst (snd y)) = None
             \<and> (outcomes new = []
                \<or> snd (verdict e (seen_all e (sc, None, ret rx) (outcomes new))) = None))
            \<or> (outcomes new \<noteq> []
               \<and> snd (verdict e (seen_all e (sc, None, ret rx) (outcomes new))) = Some err))",
    OF _ assms], goal_cases)
  case (1 loop e start sc rx w y)
  show ?case
  proof (cases "start < ContentLength rx")
    case False
    with 1(2) show ?thesis
      by (intro exI [of _ "[]"]) (auto split: option.splits)
  next
    case True
    define n where "n = (if chunkSize e \<le> ContentLength rx - start then chunkSize e
      else ContentLength rx - start)"
    from 1(2) True obtain err1 sc1 rx1 w1 where
      call: "pacer_tries (retries e) (sendChunk e start n) None (sc, rx) w
        = Some (err1, (sc1, rx1), w1)"
      and rest: "(case err1 of None \<Rightarrow> loop e (start + n) sc1 rx1 w1
                  | Some err \<Rightarrow> Some (Inl err, rx1, w1)) = Some y"
      by (auto simp: n_def [symmetric] pacer_Call_def split: option.splits prod.splits)
    from pacer_tries_sendChunk [OF call, of None] obtain outs req where outs:
      "w1 = w @ tries_events req outs"
      "rx1 = rx\<lparr>ret := snd (snd (seen_all e (sc, None, ret rx) outs))\<rparr>"
      "sc1 = fst (seen_all e (sc, None, ret rx) outs)"
      "err1 = (if outs = [] then None else snd (verdict e (seen_all e (sc, None, ret rx) outs)))"
      by blast
    show ?thesis
    proof (cases err1)
      case (Some err)
      with rest have y: "y = (Inl err, rx1, w1)"
        by simp
      from Some outs(4) have "outs \<noteq> []"
        by (auto split: if_splits)
      with Some outs show ?thesis
        by (intro exI [of _ "tries_events req outs"])
          (simp add: y outcomes_tries_events paced_tries_events [of _ _ "[]", simplified])
    next
      case None
      with rest have "loop e (start + n) sc1 rx1 w1 = Some y"
        by simp
      from 1(1) [OF this] obtain new where new:
        "snd (snd y) = w1 @ new" "paced False new"
        "fst (snd y) = rx1\<lparr>ret := snd (snd (seen_all e (sc1, None, ret rx1) (outcomes new)))\<rparr>"
        "case fst y of
          Inr file \<Rightarrow> ret (fst (snd y)) = Some file
            \<and> (outcomes new = []
               \<or> snd (verdict e (seen_all e (sc1, None, ret rx1) (outcomes new))) = None)
        | Inl err \<Rightarrow>
            (err = IncompleteUpload (fst (seen_all e (sc1, None, ret rx1) (outcomes new)))
             \<and> ret (fst (snd y)) = None
             \<and> (outcomes new = []
                \<or> snd (verdict e (seen_all e (sc1, None, ret rx1) (outcomes new))) = None))
            \<or> (outcomes new \<noteq> []
               \<and> snd (verdict e (seen_all e (sc1, None, ret rx1) (outcomes new))) = Some err)"
        by blast
      have parts: "fst (seen_all e (sc1, None, ret rx1) (outcomes new))
          = fst (seen_all e (sc, None, ret rx) (outs @ outcomes new))"
        "snd (snd (seen_all e (sc1, None, ret rx1) (outcomes new)))
          = snd (snd (seen_all e (sc, None, ret rx) (outs @ outcomes new)))"
        "outcomes new \<noteq> [] \<Longrightarrow> seen_all e (sc1, None, ret rx1) (outcomes new)
          = seen_all e (sc, None, ret rx) (outs @ outcomes new)"
        by (simp_all add: outs(2,3) seen_all_init)
      show ?thesis
      proof (intro exI [of _ "tries_events req outs @ new"] conjI)
        show "snd (snd y) = w @ tries_events req outs @ new"
          by (simp add: new(1) outs(1))
        show "paced False (tries_events req outs @ new)"
          by (simp add: paced_tries_events new(2))
        show "fst (snd y) = rx\<lparr>ret := snd (snd (seen_all e (sc, None, ret rx)
          (outcomes (tries_events req outs @ new))))\<rparr>"
          unfolding new(3) parts(2)
          by (simp add: outcomes_append outcomes_tries_events outs(2))
        have last_try: "outs = [] \<or> snd (verdict e (seen_all e (sc, None, ret rx) outs)) = None"
          using None outs(4) by (auto split: if_splits)
        show "case fst y of
            Inr file \<Rightarrow> ret (fst (snd y)) = Some file
              \<and> (outcomes (tries_events req outs @ new) = []
                 \<or> snd (verdict e (seen_all e (sc, None, ret rx)
                      (outcomes (tries_events req outs @ new)))) = None)
          | Inl err \<Rightarrow>
              (err = IncompleteUpload (fst (seen_all e (sc, None, ret rx)
                 (outcomes (tries_events req outs @ new))))
               \<and> ret (fst (snd y)) = None
               \<and> (outcomes (tries_events req outs @ new) = []
                  \<or> snd (verdict e (seen_all e (sc, None, ret rx)
                       (outcomes (tries_events req outs @ new)))) = None))
              \<or> (outcomes (tries_events req outs @ new) \<noteq> []
                 \<and> snd (verdict e (seen_all e (sc, None, ret rx)
                      (outcomes (tries_events req outs @ new)))) = Some err)"
        proof (cases "outcomes new = []")
          case True
          with new(4) parts(1) last_try show ?thesis
            by (auto simp: outcomes_append outcomes_tries_events split: sum.splits)
        next
          case False
          with new(4) parts(1) parts(3) show ?thesis
            by (auto simp: outcomes_append outcomes_tries_events split: sum.splits)
        qed
      qed
    qed
  qed
qed

subsection \<open>What the tries leave behind\<close>

lemma seen_no_error:
  "fst (snd (seen e r out)) = None \<Longrightarrow>
   fst (seen e r out) = 308 \<or> (200 \<le> fst (seen e r out) \<and> fst (seen e r out) \<le> 299)"
  by (cases out) (auto simp: seen_def CheckResponse_def split: if_splits prod.splits option.splits)

lemma seen_error_kind: "fst (snd (seen e r out)) \<noteq> Some (IncompleteUpload c)"
  by (cases out) (auto simp: seen_def CheckResponse_def split: if_splits prod.splits option.splits)

lemma seen_ret_changes:
  "snd (snd (seen e r out)) \<noteq> r \<Longrightarrow>
   \<exists>res. out = Ok res \<and> 200 \<le> StatusCode res \<and> StatusCode res \<le> 299"
  by (cases out) (auto simp: seen_def CheckResponse_def split: if_splits prod.splits option.splits)

lemma seen_all_no_error:
  assumes "outs \<noteq> []" and "fst (snd (seen_all e st outs)) = None"
  shows "fst (seen_all e st outs) = 308
    \<or> (200 \<le> fst (seen_all e st outs) \<and> fst (seen_all e st outs) \<le> 299)"
proof -
  from assms(1) obtain outs' out where "outs = outs' @ [out]"
    by (cases outs rule: rev_cases) simp_all
  with assms(2) show ?thesis
    by (simp add: seen_all_snoc seen_no_error)
qed

lemma seen_all_error_kind:
  assumes "outs \<noteq> []"
  shows "fst (snd (seen_all e st outs)) \<noteq> Some (IncompleteUpload c)"
proof -
  from assms obtain outs' out where "outs = outs' @ [out]"
    by (cases outs rule: rev_cases) simp_all
  then show ?thesis
    by (simp add: seen_all_snoc seen_error_kind)
qed

lemma seen_all_ret_changes:
  "snd (snd (seen_all e st outs)) \<noteq> snd (snd st) \<Longrightarrow>
   \<exists>res. Ok res \<in> set outs \<and> 200 \<le> StatusCode res \<and> StatusCode res \<le> 299"
proof (induction outs arbitrary: st)
  case Nil
  then show ?case by simp
next
  case (Cons out outs)
  show ?case
  proof (cases "snd (snd (seen e (snd (snd st)) out)) = snd (snd st)")
    case True
    with Cons.prems have "snd (snd (seen_all e (seen e (snd (snd st)) out) outs))
      \<noteq> snd (snd (seen e (snd (snd st)) out))"
      by simp
    from Cons.IH [OF this] show ?thesis
      by auto
  next
    case False
    from seen_ret_changes [OF this] show ?thesis
      by auto
  qed
qed

lemma incomplete_code:
  assumes "\<forall>x. snd (shouldRetry e x) = x"
    and "resumableUpload_Upload e rx w = Some (Inl (IncompleteUpload c), rx', w')"
  shows "c = 0 \<or> c = 308 \<or> (200 \<le> c \<and> c \<le> 299)"
proof -
  from assms(2) have "upload_loop e 0 0 rx w = Some (Inl (IncompleteUpload c), rx', w')"
    by (simp add: resumableUpload_Upload_def split: if_splits)
  from upload_loop_run [OF this] obtain new where
    "(c = fst (seen_all e (0, None, ret rx) (outcomes new))
        \<and> (outcomes new = []
           \<or> snd (verdict e (seen_all e (0, None, ret rx) (outcomes new))) = None))
     \<or> (outcomes new \<noteq> []
        \<and> snd (verdict e (seen_all e (0, None, ret rx) (outcomes new)))
           = Some (IncompleteUpload c))"
    by auto
  then consider
    (none) "c = fst (seen_all e (0, None, ret rx) (outcomes new))" "outcomes new = []"
  | (last) "c = fst (seen_all e (0, None, ret rx) (outcomes new))" "outcomes new \<noteq> []"
      "snd (verdict e (seen_all e (0, None, ret rx) (outcomes new))) = None"
  | (chunk) "outcomes new \<noteq> []"
      "snd (verdict e (seen_all e (0, None, ret rx) (outcomes new))) = Some (IncompleteUpload c)"
    by (cases "outcomes new = []") auto
  then show ?thesis
  proof cases
    case none
    then show ?thesis by simp
  next
    case last
    show ?thesis
    proof (cases "c = 308 \<or> c = 201 \<or> c = 200")
      case True
      then show ?thesis by auto
    next
      case False
      with last(1,3) assms(1)
      have "fst (snd (seen_all e (0, None, ret rx) (outcomes new))) = None"
        by (simp add: verdict_def)
      from seen_all_no_error [OF last(2) this] last(1) show ?thesis
        by simp
    qed
  next
    case chunk
    from chunk(2) assms(1)
    have "fst (snd (seen_all e (0, None, ret rx) (outcomes new))) = Some (IncompleteUpload c)"
      by (simp add: verdict_def split: if_splits)
    with seen_all_error_kind [OF chunk(1)] show ?thesis
      by blast
  qed
qed

lemma classify_hands_back: "snd (classify x) = x"
  by (simp add: classify_def split: option.splits error.splits)

section \<open>The claims about the transfer loop\<close>

text \<open>
  Claim C5. In the transfer loop a 308 answer to a chunk moves the cursor on by exactly
  \<open>reqSize\<close>, and an outcome after which the closure asks for another try has the same
  chunk sent again, the cursor unmoved. Stated in two parts, for the chunk at \<open>start\<close> and
  its one request. When the first tries meet outcomes \<open>outs\<close> that all ask for another
  try (fewer than the pacer's bound) and the next try meets a 308, the loop makes exactly
  \<open>length outs + 1\<close> round trips, all with that request, and goes on at
  \<open>start + reqSize\<close>: with \<open>outs\<close> empty this is the advance on a 308, with two transport
  errors before the 308 there are three tries. When the tries end with an error instead,
  the closure asking for no other try or the pacer's bound being reached, the loop has
  made exactly these tries, all with that request, and returns the error: nothing is sent
  from a later offset.
\<close>

theorem chunk_resent_cursor_unmoved:
  assumes "start < ContentLength rx"
    and "n = (if chunkSize e \<le> ContentLength rx - start then chunkSize e
              else ContentLength rx - start)"
    and "makeRequest e rx start n = Some req"
  shows "(answers e w req (outs @ [Ok res]) \<and> all_again e (ret rx) outs
      \<and> StatusCode res = 308 \<and> length outs < retries e \<longrightarrow>
     upload_loop e start sc rx w =
     upload_loop e (start + n) 308
       (rx\<lparr>ret := snd (snd (seen_all e (sc, None, ret rx) outs))\<rparr>)
       (w @ tries_events req (outs @ [Ok res])))
    \<and> (answers e w req outs \<and> outs \<noteq> [] \<and> all_again e (ret rx) (butlast outs)
      \<and> length outs \<le> retries e
      \<and> (length outs = retries e \<or> \<not> fst (verdict e (seen_all e (sc, None, ret rx) outs)))
      \<and> snd (verdict e (seen_all e (sc, None, ret rx) outs)) = Some err \<longrightarrow>
     upload_loop e start sc rx w =
     Some (Inl err, rx\<lparr>ret := snd (snd (seen_all e (sc, None, ret rx) outs))\<rparr>,
       w @ tries_events req outs))"
proof (intro conjI impI)
  assume h: "answers e w req (outs @ [Ok res]) \<and> all_again e (ret rx) outs
      \<and> StatusCode res = 308 \<and> length outs < retries e"
  then have "pacer_tries (retries e) (sendChunk e start n) None (sc, rx) w =
    Some (None, (308, rx\<lparr>ret := snd (snd (seen_all e (sc, None, ret rx) outs))\<rparr>),
      w @ tries_events req (outs @ [Ok res]))"
    by (intro pacer_tries_until_308 [OF assms(3)]) simp_all
  with assms(1) show "upload_loop e start sc rx w =
     upload_loop e (start + n) 308
       (rx\<lparr>ret := snd (snd (seen_all e (sc, None, ret rx) outs))\<rparr>)
       (w @ tries_events req (outs @ [Ok res]))"
    by (subst upload_loop.simps) (simp add: assms(2) [symmetric] pacer_Call_def)
next
  assume h: "answers e w req outs \<and> outs \<noteq> [] \<and> all_again e (ret rx) (butlast outs)
      \<and> length outs \<le> retries e
      \<and> (length outs = retries e \<or> \<not> fst (verdict e (seen_all e (sc, None, ret rx) outs)))
      \<and> snd (verdict e (seen_all e (sc, None, ret rx) outs)) = Some err"
  then have "pacer_tries (retries e) (sendChunk e start n) None (sc, rx) w =
    Some (snd (verdict e (seen_all e (sc, None, ret rx) outs)),
      (fst (seen_all e (sc, None, ret rx) outs),
       rx\<lparr>ret := snd (snd (seen_all e (sc, None, ret rx) outs))\<rparr>),
      w @ tries_events req outs)"
    by (intro pacer_tries_stops [OF assms(3)]) simp_all
  with assms(1) h show "upload_loop e start sc rx w =
     Some (Inl err, rx\<lparr>ret := snd (snd (seen_all e (sc, None, ret rx) outs))\<rparr>,
       w @ tries_events req outs)"
    by (subst upload_loop.simps) (simp add: assms(2) [symmetric] pacer_Call_def)
qed

theorem chunk_resent_cursor_unmoved_witness:
  "(4 < ContentLength (session 10)
    \<and> 4 = (if chunkSize scenario_B \<le> ContentLength (session 10) - 4 then chunkSize scenario_B
           else ContentLength (session 10) - 4)
    \<and> makeRequest scenario_B (session 10) 4 4 = Some (chunk_req 4 ''bytes 4-7/10'')
    \<and> answers scenario_B (tries_events (chunk_req 4 ''bytes 0-3/10'') [resp 308 [] ''''])
         (chunk_req 4 ''bytes 4-7/10'')
         ([Fail ''connection reset'' None, Fail ''connection reset'' None]
          @ [Ok \<lparr>StatusCode = 308, Header = [], Body = ''''\<rparr>])
    \<and> all_again scenario_B (ret (session 10))
         [Fail ''connection reset'' None, Fail ''connection reset'' None]
    \<and> StatusCode \<lparr>StatusCode = 308, Header = [], Body = ''''\<rparr> = 308
    \<and> length [Fail ''connection reset'' None, Fail ''connection reset'' None]
        < retries scenario_B)
   \<and> upload_loop scenario_B 4 308 (session 10)
        (tries_events (chunk_req 4 ''bytes 0-3/10'') [resp 308 [] ''''])
      = upload_loop scenario_B (4 + 4) 308
          ((session 10)\<lparr>ret := snd (snd (seen_all scenario_B (308, None, ret (session 10))
             [Fail ''connection reset'' None, Fail ''connection reset'' None]))\<rparr>)
          (tries_events (chunk_req 4 ''bytes 0-3/10'') [resp 308 [] '''']
           @ tries_events (chunk_req 4 ''bytes 4-7/10'')
               ([Fail ''connection reset'' None, Fail ''connection reset'' None]
                @ [Ok \<lparr>StatusCode = 308, Header = [], Body = ''''\<rparr>]))
   \<and> (0 < ContentLength (session 10)
    \<and> 4 = (if chunkSize (scripted []) \<le> ContentLength (session 10) - 0 then chunkSize (scripted [])
           else ContentLength (session 10) - 0)
    \<and> makeRequest (scripted []) (session 10) 0 4 = Some (chunk_req 4 ''bytes 0-3/10'')
    \<and> answers (scripted []) [] (chunk_req 4 ''bytes 0-3/10'') (replicate 10 (Fail ''EOF'' None))
    \<and> replicate 10 (Fail ''EOF'' None) \<noteq> []
    \<and> all_again (scripted []) (ret (session 10)) (butlast (replicate 10 (Fail ''EOF'' None)))
    \<and> length (replicate 10 (Fail ''EOF'' None)) \<le> retries (scripted [])
    \<and> (length (replicate 10 (Fail ''EOF'' None)) = retries (scripted [])
       \<or> \<not> fst (verdict (scripted [])
              (seen_all (scripted []) (0, None, ret (session 10))
                 (replicate 10 (Fail ''EOF'' None)))))
    \<and> snd (verdict (scripted [])
         (seen_all (scripted []) (0, None, ret (session 10)) (replicate 10 (Fail ''EOF'' None))))
       = Some (TransportError ''EOF''))
   \<and> upload_loop (scripted []) 0 0 (session 10) []
      = Some (Inl (TransportError ''EOF''),
          (session 10)\<lparr>ret := snd (snd (seen_all (scripted []) (0, None, ret (session 10))
             (replicate 10 (Fail ''EOF'' None))))\<rparr>,
          [] @ tries_events (chunk_req 4 ''bytes 0-3/10'') (replicate 10 (Fail ''EOF'' None)))
   \<and> sent_ranges (tries_events (chunk_req 4 ''bytes 0-3/10'') (replicate 10 (Fail ''EOF'' None)))
      = replicate 10 ''bytes 0-3/10''"
proof -
  have h1: "4 < ContentLength (session 10)"
    by code_simp
  have h2: "4 = (if chunkSize scenario_B \<le> ContentLength (session 10) - 4
      then chunkSize scenario_B else ContentLength (session 10) - 4)"
    by code_simp
  have h3: "makeRequest scenario_B (session 10) 4 4 = Some (chunk_req 4 ''bytes 4-7/10'')"
    by code_simp
  have h4: "answers scenario_B (tries_events (chunk_req 4 ''bytes 0-3/10'') [resp 308 [] ''''])
         (chunk_req 4 ''bytes 4-7/10'')
         ([Fail ''connection reset'' None, Fail ''connection reset'' None]
          @ [Ok \<lparr>StatusCode = 308, Header = [], Body = ''''\<rparr>])"
    by code_simp
  have h5: "all_again scenario_B (ret (session 10))
         [Fail ''connection reset'' None, Fail ''connection reset'' None]"
    by code_simp
  have h6: "StatusCode \<lparr>StatusCode = 308, Header = [], Body = ''''\<rparr> = 308"
    by simp
  have h7: "length [Fail ''connection reset'' None, Fail ''connection reset'' None]
        < retries scenario_B"
    by code_simp
  have g1: "0 < ContentLength (session 10)"
    by code_simp
  have g2: "4 = (if chunkSize (scripted []) \<le> ContentLength (session 10) - 0
      then chunkSize (scripted []) else ContentLength (session 10) - 0)"
    by code_simp
  have g3: "makeRequest (scripted []) (session 10) 0 4 = Some (chunk_req 4 ''bytes 0-3/10'')"
    by code_simp
  have g4: "answers (scripted []) [] (chunk_req 4 ''bytes 0-3/10'')
      (replicate 10 (Fail ''EOF'' None))"
    by code_simp
  have g5: "replicate 10 (Fail ''EOF'' None) \<noteq> []"
    by code_simp
  have g6: "all_again (scripted []) (ret (session 10))
      (butlast (replicate 10 (Fail ''EOF'' None)))"
    by code_simp
  have g7: "length (replicate 10 (Fail ''EOF'' None)) \<le> retries (scripted [])"
    by code_simp
  have g8: "length (replicate 10 (Fail ''EOF'' None)) = retries (scripted [])
       \<or> \<not> fst (verdict (scripted [])
              (seen_all (scripted []) (0, None, ret (session 10))
                 (replicate 10 (Fail ''EOF'' None))))"
    by code_simp
  have g9: "snd (verdict (scripted [])
         (seen_all (scripted []) (0, None, ret (session 10)) (replicate 10 (Fail ''EOF'' None))))
       = Some (TransportError ''EOF'')"
    by code_simp
  have ranges: "sent_ranges (tries_events (chunk_req 4 ''bytes 0-3/10'')
        (replicate 10 (Fail ''EOF'' None)))
      = replicate 10 ''bytes 0-3/10''"
    by code_simp
  note advance = chunk_resent_cursor_unmoved [OF h1 h2 h3, THEN conjunct1, rule_format,
      of _ "[Fail ''connection reset'' None, Fail ''connection reset'' None]"
         "\<lparr>StatusCode = 308, Header = [], Body = ''''\<rparr>" 308]
  note stop = chunk_resent_cursor_unmoved [OF g1 g2 g3, THEN conjunct2, rule_format,
      of "[]" "replicate 10 (Fail ''EOF'' None)" 0 "TransportError ''EOF''"]
  from h1 h2 h3 h4 h5 h6 h7 g1 g2 g3 g4 g5 g6 g7 g8 g9 ranges
    advance [OF conjI [OF h4 conjI [OF h5 conjI [OF h6 h7]]]]
    stop [OF conjI [OF g4 conjI [OF g5 conjI [OF g6 conjI [OF g7 conjI [OF g8 g9]]]]]]
  show ?thesis
    by (intro conjI)
qed

text \<open>
  Claim C6, as amended. A run of the transfer loop that ends with \<^verbatim>\<open>rx.ret\<close> nil returns
  an error, and the error is one of two: the incomplete-upload failure, carrying the
  status code that \<^verbatim>\<open>transferChunk\<close> reported for the last try (0 when there was no
  try), after a last try that the closure passed without error; or the error that the
  closure returned to the pacer for the last try, the error of that chunk. (As the claim
  stands, every such run would return the incomplete-upload failure: the run on a 404
  below returns the error of the chunk.)
\<close>

theorem Upload_without_result:
  assumes "resumableUpload_Upload e rx w = Some (res, rx', w')"
    and "ret rx' = None"
  shows "\<exists>err new. res = Inl err \<and> w' = w @ new
    \<and> (err = IncompleteUpload (fst (seen_all e (0, None, ret rx) (outcomes new)))
         \<and> (outcomes new = []
            \<or> snd (verdict e (seen_all e (0, None, ret rx) (outcomes new))) = None)
       \<or> outcomes new \<noteq> []
         \<and> snd (verdict e (seen_all e (0, None, ret rx) (outcomes new))) = Some err)"
proof -
  from assms(1) have "upload_loop e 0 0 rx w = Some (res, rx', w')"
    by (simp add: resumableUpload_Upload_def split: if_splits)
  from upload_loop_run [OF this] assms(2) show ?thesis
    by (cases res) auto
qed

theorem Upload_without_result_witness:
  "resumableUpload_Upload never_final (session 10) []
   = Some (Inl (IncompleteUpload 308), session 10,
       [] @ tries_events (chunk_req 4 ''bytes 0-3/10'') [resp 308 [] '''']
       @ tries_events (chunk_req 4 ''bytes 4-7/10'') [resp 308 [] '''']
       @ tries_events (chunk_req 2 ''bytes 8-9/10'') [resp 308 [] ''''])
   \<and> ret (session 10) = None
   \<and> IncompleteUpload 308
       = IncompleteUpload (fst (seen_all never_final (0, None, ret (session 10))
           [resp 308 [] '''', resp 308 [] '''', resp 308 [] '''']))"
proof -
  let ?new = "tries_events (chunk_req 4 ''bytes 0-3/10'') [resp 308 [] '''']
       @ tries_events (chunk_req 4 ''bytes 4-7/10'') [resp 308 [] '''']
       @ tries_events (chunk_req 2 ''bytes 8-9/10'') [resp 308 [] '''']"
  have run: "resumableUpload_Upload never_final (session 10) []
    = Some (Inl (IncompleteUpload 308), session 10, [] @ ?new)"
    by code_simp
  have nil: "ret (session 10) = None"
    by (simp add: session_def)
  have outs: "outcomes ?new = [resp 308 [] '''', resp 308 [] '''', resp 308 [] '''']"
    by simp
  have kind: "snd (verdict never_final (seen_all never_final (0, None, ret (session 10))
      [resp 308 [] '''', resp 308 [] '''', resp 308 [] ''''])) = None"
    by code_simp
  from Upload_without_result [OF run nil] obtain err new where
    "(Inl (IncompleteUpload 308) :: error + string) = Inl err" "[] @ ?new = [] @ new"
    "err = IncompleteUpload (fst (seen_all never_final (0, None, ret (session 10)) (outcomes new)))
         \<and> (outcomes new = []
            \<or> snd (verdict never_final (seen_all never_final (0, None, ret (session 10))
                 (outcomes new))) = None)
       \<or> outcomes new \<noteq> []
         \<and> snd (verdict never_final (seen_all never_final (0, None, ret (session 10))
              (outcomes new))) = Some err"
    by blast
  then have "IncompleteUpload 308
       = IncompleteUpload (fst (seen_all never_final (0, None, ret (session 10))
           [resp 308 [] '''', resp 308 [] '''', resp 308 [] '''']))"
    using outs kind by auto
  with run nil show ?thesis
    by (intro conjI)
qed

theorem Upload_without_result_counterexample:
  "resumableUpload_Upload (scripted [resp 404 [] ''not found'']) (session 10) []
   = Some (Inl (ApiError 404 ''not found''), session 10,
       tries_events (chunk_req 4 ''bytes 0-3/10'') [resp 404 [] ''not found''])
   \<and> ret (session 10) = None"
  by code_simp

text \<open>
  Claim C9, as amended. After a run of the transfer loop \<^verbatim>\<open>rx.ret\<close> is what the JSON
  decoder left in it over the bodies of the chunk responses that came without a transport
  error and with a 2xx status, in order, whether the decoder accepted a body or rejected
  it; so \<^verbatim>\<open>rx.ret\<close> differs from what it was before the run only if a chunk response
  had a 2xx status. (As the claim stands, \<^verbatim>\<open>rx.ret\<close> would be non-nil exactly when a
  200 or 201 was seen: below, with a decoder that rejects an empty body and leaves
  \<^verbatim>\<open>rx.ret\<close> as it was, a 200 with an empty body leaves it nil, and a 202 with a body
  that decodes fills it.)
\<close>

theorem ret_after_Upload:
  assumes "resumableUpload_Upload e rx w = Some (res, rx', w')"
  shows "\<exists>new. w' = w @ new
    \<and> ret rx' = snd (snd (seen_all e (0, None, ret rx) (outcomes new)))
    \<and> (ret rx' = ret rx
       \<or> (\<exists>r. Ok r \<in> set (outcomes new) \<and> 200 \<le> StatusCode r \<and> StatusCode r \<le> 299))"
proof -
  from assms(1) have "upload_loop e 0 0 rx w = Some (res, rx', w')"
    by (simp add: resumableUpload_Upload_def split: if_splits)
  from upload_loop_run [OF this] obtain new where new: "w' = w @ new"
    "rx' = rx\<lparr>ret := snd (snd (seen_all e (0, None, ret rx) (outcomes new)))\<rparr>"
    by auto
  from new(2) have r: "ret rx' = snd (snd (seen_all e (0, None, ret rx) (outcomes new)))"
    by simp
  show ?thesis
    using new(1) r seen_all_ret_changes [of e "(0, None, ret rx)" "outcomes new"]
    by (intro exI [of _ new]) auto
qed

theorem ret_after_Upload_witness:
  "resumableUpload_Upload scenario_A (session 10) []
   = Some (Inr ''f1'', (session 10)\<lparr>ret := Some ''f1''\<rparr>,
       [] @ tries_events (chunk_req 4 ''bytes 0-3/10'') [resp 308 [] '''']
       @ tries_events (chunk_req 4 ''bytes 4-7/10'') [resp 308 [] '''']
       @ tries_events (chunk_req 2 ''bytes 8-9/10'') [resp 201 [] ''f1''])
   \<and> (\<exists>new. [] @ tries_events (chunk_req 4 ''bytes 0-3/10'') [resp 308 [] '''']
       @ tries_events (chunk_req 4 ''bytes 4-7/10'') [resp 308 [] '''']
       @ tries_events (chunk_req 2 ''bytes 8-9/10'') [resp 201 [] ''f1''] = [] @ new
     \<and> ret ((session 10)\<lparr>ret := Some ''f1''\<rparr>)
        = snd (snd (seen_all scenario_A (0, None, ret (session 10)) (outcomes new)))
     \<and> (ret ((session 10)\<lparr>ret := Some ''f1''\<rparr>) = ret (session 10)
        \<or> (\<exists>r. Ok r \<in> set (outcomes new) \<and> 200 \<le> StatusCode r \<and> StatusCode r \<le> 299)))"
proof -
  have run: "resumableUpload_Upload scenario_A (session 10) []
   = Some (Inr ''f1'', (session 10)\<lparr>ret := Some ''f1''\<rparr>,
       [] @ tries_events (chunk_req 4 ''bytes 0-3/10'') [resp 308 [] '''']
       @ tries_events (chunk_req 4 ''bytes 4-7/10'') [resp 308 [] '''']
       @ tries_events (chunk_req 2 ''bytes 8-9/10'') [resp 201 [] ''f1''])"
    by code_simp
  from run ret_after_Upload [OF run] show ?thesis
    by (intro conjI)
qed

theorem ret_after_Upload_counterexample:
  "resumableUpload_Upload (scripted [resp 200 [] '''']) (session 4) []
   = Some (Inl (DecodeError ''EOF''), session 4,
       tries_events (chunk_req 4 ''bytes 0-3/4'') [resp 200 [] ''''])
   \<and> ret (session 4) = None
   \<and> resumableUpload_Upload (scripted [resp 202 [] ''f1'']) (session 4) []
   = Some (Inr ''f1'', (session 4)\<lparr>ret := Some ''f1''\<rparr>,
       tries_events (chunk_req 4 ''bytes 0-3/4'') [resp 202 [] ''f1''])"
  by code_simp

text \<open>
  Claim C10, as amended. When the round trip of a chunk fails, \<^verbatim>\<open>transferChunk\<close>
  reports the status code 599 with the transport error; when the body of a 2xx response
  does not decode, it reports 598 with the error of the decoder. With a classifier that
  hands back the error it is given, these two codes never reach the incomplete-upload
  failure: the code it carries is 0, 308 or a 2xx code, since a try that reported 599 or
  598 ends the call of the pacer with its own error. (As the claim stands, 599 and 598
  would be the codes shown by the incomplete-upload failure: in the runs below the last
  try reports 599, and 598, and the upload returns the error of the chunk.)
\<close>

theorem sentinel_status_codes:
  "(makeRequest e rx start n = Some req \<and> client e w req = Fail msg r \<longrightarrow>
      transferChunk e rx start n w
      = Some ((599, Some (TransportError msg)), rx, w @ [RoundTrip req (Fail msg r)]))
   \<and> (makeRequest e rx start n = Some req \<and> client e w req = Ok res
       \<and> 200 \<le> StatusCode res \<and> StatusCode res \<le> 299
       \<and> Decode e (Body res) (ret rx) = (Some msg, r') \<longrightarrow>
      transferChunk e rx start n w
      = Some ((598, Some (DecodeError msg)), rx\<lparr>ret := r'\<rparr>, w @ [RoundTrip req (Ok res)]))
   \<and> ((\<forall>x. snd (shouldRetry e x) = x)
       \<and> resumableUpload_Upload e rx w = Some (Inl (IncompleteUpload c), rx', w') \<longrightarrow>
      c = 0 \<or> c = 308 \<or> (200 \<le> c \<and> c \<le> 299))"
proof (intro conjI impI)
  assume "makeRequest e rx start n = Some req \<and> client e w req = Fail msg r"
  then show "transferChunk e rx start n w
      = Some ((599, Some (TransportError msg)), rx, w @ [RoundTrip req (Fail msg r)])"
    by (simp add: transferChunk_seen seen_def)
next
  assume "makeRequest e rx start n = Some req \<and> client e w req = Ok res
       \<and> 200 \<le> StatusCode res \<and> StatusCode res \<le> 299
       \<and> Decode e (Body res) (ret rx) = (Some msg, r')"
  then show "transferChunk e rx start n w
      = Some ((598, Some (DecodeError msg)), rx\<lparr>ret := r'\<rparr>, w @ [RoundTrip req (Ok res)])"
    by (simp add: transferChunk_seen seen_def CheckResponse_def)
next
  assume "(\<forall>x. snd (shouldRetry e x) = x)
       \<and> resumableUpload_Upload e rx w = Some (Inl (IncompleteUpload c), rx', w')"
  then show "c = 0 \<or> c = 308 \<or> (200 \<le> c \<and> c \<le> 299)"
    using incomplete_code by blast
qed

theorem sentinel_status_codes_witness:
  "(makeRequest (scripted []) (session 4) 0 4 = Some (chunk_req 4 ''bytes 0-3/4'')
     \<and> client (scripted []) [] (chunk_req 4 ''bytes 0-3/4'') = Fail ''EOF'' None)
   \<and> transferChunk (scripted []) (session 4) 0 4 []
      = Some ((599, Some (TransportError ''EOF'')), session 4,
          [] @ [RoundTrip (chunk_req 4 ''bytes 0-3/4'') (Fail ''EOF'' None)])
   \<and> (makeRequest (scripted [resp 201 [] '''']) (session 4) 0 4
         = Some (chunk_req 4 ''bytes 0-3/4'')
     \<and> client (scripted [resp 201 [] '''']) [] (chunk_req 4 ''bytes 0-3/4'')
         = Ok \<lparr>StatusCode = 201, Header = [], Body = ''''\<rparr>
     \<and> 200 \<le> StatusCode \<lparr>StatusCode = 201, Header = [], Body = ''''\<rparr>
     \<and> StatusCode \<lparr>StatusCode = 201, Header = [], Body = ''''\<rparr> \<le> 299
     \<and> Decode (scripted [resp 201 [] ''''])
          (Body \<lparr>StatusCode = 201, Header = [], Body = ''''\<rparr>) (ret (session 4))
        = (Some ''EOF'', None))
   \<and> transferChunk (scripted [resp 201 [] '''']) (session 4) 0 4 []
      = Some ((598, Some (DecodeError ''EOF'')), (session 4)\<lparr>ret := None\<rparr>,
          [] @ [RoundTrip (chunk_req 4 ''bytes 0-3/4'')
                  (Ok \<lparr>StatusCode = 201, Header = [], Body = ''''\<rparr>)])
   \<and> ((\<forall>x. snd (shouldRetry never_final x) = x)
     \<and> resumableUpload_Upload never_final (session 10) []
        = Some (Inl (IncompleteUpload 308), session 10,
            tries_events (chunk_req 4 ''bytes 0-3/10'') [resp 308 [] '''']
            @ tries_events (chunk_req 4 ''bytes 4-7/10'') [resp 308 [] '''']
            @ tries_events (chunk_req 2 ''bytes 8-9/10'') [resp 308 [] '''']))
   \<and> ((308 :: int) = 0 \<or> (308 :: int) = 308 \<or> (200 \<le> (308 :: int) \<and> (308 :: int) \<le> 299))"
proof -
  have a: "makeRequest (scripted []) (session 4) 0 4 = Some (chunk_req 4 ''bytes 0-3/4'')
     \<and> client (scripted []) [] (chunk_req 4 ''bytes 0-3/4'') = Fail ''EOF'' None"
    by code_simp
  have b: "makeRequest (scripted [resp 201 [] '''']) (session 4) 0 4
         = Some (chunk_req 4 ''bytes 0-3/4'')
     \<and> client (scripted [resp 201 [] '''']) [] (chunk_req 4 ''bytes 0-3/4'')
         = Ok \<lparr>StatusCode = 201, Header = [], Body = ''''\<rparr>
     \<and> 200 \<le> StatusCode \<lparr>StatusCode = 201, Header = [], Body = ''''\<rparr>
     \<and> StatusCode \<lparr>StatusCode = 201, Header = [], Body = ''''\<rparr> \<le> 299
     \<and> Decode (scripted [resp 201 [] ''''])
          (Body \<lparr>StatusCode = 201, Header = [], Body = ''''\<rparr>) (ret (session 4))
        = (Some ''EOF'', None)"
    by code_simp
  have "shouldRetry never_final = classify"
    by (simp add: never_final_def scripted_def)
  then have "\<forall>x. snd (shouldRetry never_final x) = x"
    by (simp add: classify_hands_back)
  moreover have "resumableUpload_Upload never_final (session 10) []
        = Some (Inl (IncompleteUpload 308), session 10,
            tries_events (chunk_req 4 ''bytes 0-3/10'') [resp 308 [] '''']
            @ tries_events (chunk_req 4 ''bytes 4-7/10'') [resp 308 [] '''']
            @ tries_events (chunk_req 2 ''bytes 8-9/10'') [resp 308 [] ''''])"
    by code_simp
  ultimately have c: "(\<forall>x. snd (shouldRetry never_final x) = x)
     \<and> resumableUpload_Upload never_final (session 10) []
        = Some (Inl (IncompleteUpload 308), session 10,
            tries_events (chunk_req 4 ''bytes 0-3/10'') [resp 308 [] '''']
            @ tries_events (chunk_req 4 ''bytes 4-7/10'') [resp 308 [] '''']
            @ tries_events (chunk_req 2 ''bytes 8-9/10'') [resp 308 [] ''''])"
    by (rule conjI)
  note thm1 = sentinel_status_codes [where e = "scripted []" and rx = "session 4"
      and start = 0 and n = 4 and req = "chunk_req 4 ''bytes 0-3/4''" and w = "[]"
      and msg = "''EOF''" and r = None, THEN conjunct1, rule_format, OF a]
  note thm2 = sentinel_status_codes [where e = "scripted [resp 201 [] '''']"
      and rx = "session 4" and start = 0 and n = 4 and req = "chunk_req 4 ''bytes 0-3/4''"
      and w = "[]" and msg = "''EOF''" and r' = None
      and res = "\<lparr>StatusCode = 201, Header = [], Body = ''''\<rparr>",
      THEN conjunct2, THEN conjunct1, rule_format, OF b]
  note thm3 = sentinel_status_codes [where e = never_final and rx = "session 10"
      and w = "[]" and c = 308, THEN conjunct2, THEN conjunct2, rule_format, OF c]
  from a thm1 b thm2 c thm3 show ?thesis
    by (elim conjE) (intro conjI; assumption)
qed

theorem sentinel_status_codes_counterexample:
  "resumableUpload_Upload (scripted [Fail ''no such host'' None]) (session 4) []
   = Some (Inl (TransportError ''no such host''), session 4,
       tries_events (chunk_req 4 ''bytes 0-3/4'') [Fail ''no such host'' None])
   \<and> fst (seen_all (scripted [Fail ''no such host'' None]) (0, None, None)
         [Fail ''no such host'' None]) = 599
   \<and> resumableUpload_Upload (scripted [resp 201 [] '''']) (session 4) []
   = Some (Inl (DecodeError ''EOF''), session 4,
       tries_events (chunk_req 4 ''bytes 0-3/4'') [resp 201 [] ''''])
   \<and> fst (seen_all (scripted [resp 201 [] '''']) (0, None, None) [resp 201 [] '''']) = 598"
  by code_simp

subsection \<open>The ranges of a run\<close>

lemma makeRequest_range:
  "makeRequest e rx start n = Some req \<Longrightarrow> n \<noteq> 0 \<Longrightarrow>
   Header_Get (ReqHeader req) ''Content-Range'' = content_range (ContentLength rx) (start, n)"
  by (auto simp: makeRequest_def Header_Get_def content_range_def split: if_splits)

lemma chunks_from_cover:
  "0 < C \<Longrightarrow> concat (map (\<lambda>(s, n). [s..s + n - 1]) (chunks_from C L start)) = [start..L - 1]"
proof (induction C L start rule: chunks_from.induct)
  case (1 C L start)
  show ?case
  proof (cases "start < L")
    case True
    define n where "n = min C (L - start)"
    with True 1(2) have n: "0 < n" "start + n \<le> L"
      by auto
    have "[start..L - 1] = [start..start + n - 1] @ [start + n..L - 1]"
      using n upto_split2 [of start "start + n - 1" "L - 1"] by simp
    with 1 True show ?thesis
      by (subst chunks_from.simps) (simp add: n_def)
  next
    case False
    then show ?thesis
      by (subst chunks_from.simps) simp
  qed
qed

lemma chunks_from_length:
  "c \<in> set (chunks_from C L start) \<Longrightarrow> snd c = min C (L - fst c) \<and> start \<le> fst c \<and> fst c < L"
proof (induction C L start rule: chunks_from.induct)
  case (1 C L start)
  show ?case
  proof (cases "0 < C \<and> start < L")
    case True
    from 1(2) have "c = (start, min C (L - start))
      \<or> c \<in> set (chunks_from C L (start + min C (L - start)))"
      by (subst (asm) chunks_from.simps) (simp add: True)
    then show ?thesis
    proof
      assume "c = (start, min C (L - start))"
      with True show ?thesis by simp
    next
      assume "c \<in> set (chunks_from C L (start + min C (L - start)))"
      from 1(1) [OF True this] True show ?thesis
        by auto
    qed
  next
    case False
    with 1(2) show ?thesis
      by (subst (asm) chunks_from.simps) simp
  qed
qed

lemma upload_loop_ranges:
  assumes "upload_loop e start sc rx w = Some y"
  shows "0 < chunkSize e \<longrightarrow> (\<forall>f. fst y = Inr f \<longrightarrow>
    (\<exists>new ns. snd (snd y) = w @ new
      \<and> length ns = length (chunks_from (chunkSize e) (ContentLength rx) start)
      \<and> (\<forall>k\<in>set ns. k \<le> retries e \<and> (0 < retries e \<longrightarrow> 0 < k))
      \<and> sent_ranges new
        = concat (map (\<lambda>(k, c). replicate k (content_range (ContentLength rx) c))
            (zip ns (chunks_from (chunkSize e) (ContentLength rx) start)))))"
proof (rule upload_loop.raw_induct [where P = "\<lambda>e start sc rx w y.
    0 < chunkSize e \<longrightarrow> (\<forall>f. fst y = Inr f \<longrightarrow>
    (\<exists>new ns. snd (snd y) = w @ new
      \<and> length ns = length (chunks_from (chunkSize e) (ContentLength rx) start)
      \<and> (\<forall>k\<in>set ns. k \<le> retries e \<and> (0 < retries e \<longrightarrow> 0 < k))
      \<and> sent_ranges new
        = concat (map (\<lambda>(k, c). replicate k (content_range (ContentLength rx) c))
            (zip ns (chunks_from (chunkSize e) (ContentLength rx) start)))))",
    OF _ assms], goal_cases)
  case (1 loop e start sc rx w y)
  show ?case
  proof (intro impI allI)
    fix f
    assume C: "0 < chunkSize e" and ok: "fst y = Inr f"
    show "\<exists>new ns. snd (snd y) = w @ new
      \<and> length ns = length (chunks_from (chunkSize e) (ContentLength rx) start)
      \<and> (\<forall>k\<in>set ns. k \<le> retries e \<and> (0 < retries e \<longrightarrow> 0 < k))
      \<and> sent_ranges new
        = concat (map (\<lambda>(k, c). replicate k (content_range (ContentLength rx) c))
            (zip ns (chunks_from (chunkSize e) (ContentLength rx) start)))"
    proof (cases "start < ContentLength rx")
      case False
      with 1(2) have "snd (snd y) = w"
        by (auto split: option.splits)
      moreover from False have "chunks_from (chunkSize e) (ContentLength rx) start = []"
        by (subst chunks_from.simps) simp
      ultimately show ?thesis
        by (intro exI [of _ "[]"]) simp
    next
      case True
      define n where "n = min (chunkSize e) (ContentLength rx - start)"
      have n_code: "(if chunkSize e \<le> ContentLength rx - start then chunkSize e
        else ContentLength rx - start) = n"
        by (simp add: n_def min_def)
      from C True have n: "n \<noteq> 0"
        by (simp add: n_def)
      from 1(2) True obtain err1 sc1 rx1 w1 where
        call: "pacer_tries (retries e) (sendChunk e start n) None (sc, rx) w
          = Some (err1, (sc1, rx1), w1)"
        and rest: "(case err1 of None \<Rightarrow> loop e (start + n) sc1 rx1 w1
                    | Some err \<Rightarrow> Some (Inl err, rx1, w1)) = Some y"
        by (auto simp: n_code pacer_Call_def split: option.splits prod.splits)
      from rest ok have next_call: "loop e (start + n) sc1 rx1 w1 = Some y"
        by (cases err1) auto
      from pacer_tries_sendChunk [OF call, of None] obtain outs req where outs:
        "length outs \<le> retries e" "0 < retries e \<longrightarrow> outs \<noteq> []"
        "outs \<noteq> [] \<longrightarrow> makeRequest e rx start n = Some req"
        "w1 = w @ tries_events req outs"
        "rx1 = rx\<lparr>ret := snd (snd (seen_all e (sc, None, ret rx) outs))\<rparr>"
        by (elim exE conjE) (rule that)
      from outs(5) have len1: "ContentLength rx1 = ContentLength rx"
        by simp
      from 1(1) [OF next_call] C ok len1 obtain new ns where new:
        "snd (snd y) = w1 @ new"
        "length ns = length (chunks_from (chunkSize e) (ContentLength rx) (start + n))"
        "\<forall>k\<in>set ns. k \<le> retries e \<and> (0 < retries e \<longrightarrow> 0 < k)"
        "sent_ranges new
          = concat (map (\<lambda>(k, c). replicate k (content_range (ContentLength rx) c))
              (zip ns (chunks_from (chunkSize e) (ContentLength rx) (start + n))))"
        by auto
      have chunks: "chunks_from (chunkSize e) (ContentLength rx) start
        = (start, n) # chunks_from (chunkSize e) (ContentLength rx) (start + n)"
        using C True by (subst chunks_from.simps) (simp add: n_def)
      have tries: "sent_ranges (tries_events req outs)
        = replicate (length outs) (content_range (ContentLength rx) (start, n))"
        using outs(3) n by (cases "outs = []") (simp_all add: sent_ranges_tries_events makeRequest_range)
      show ?thesis
        using new outs(1,2)
        by (intro exI [of _ "tries_events req outs @ new"] exI [of _ "length outs # ns"])
          (simp add: outs(4) chunks sent_ranges_append tries)
    qed
  qed
qed

lemma length_sent_ranges: "length (sent_ranges w) = length (outcomes w)"
  by (induction w rule: outcomes.induct) simp_all

lemma length_tries_ranges:
  "length ns = length cs \<Longrightarrow>
   length (concat (map (\<lambda>(k, c). replicate k (g c)) (zip ns cs))) = sum_list ns"
  by (induction ns cs rule: list_induct2) simp_all

lemma one_try_each:
  "\<forall>k\<in>set ns. 0 < k \<Longrightarrow> sum_list ns = length ns \<Longrightarrow> \<forall>k\<in>set ns. k = (1 :: nat)"
proof (induction ns)
  case Nil
  then show ?case by simp
next
  case (Cons k ns)
  from Cons.prems(1) have "length ns \<le> sum_list ns"
    by (induction ns) (auto simp: Suc_le_eq)
  with Cons.prems show ?case
    using Cons.IH by auto
qed

lemma one_try_ranges:
  "length ns = length cs \<Longrightarrow> \<forall>k\<in>set ns. k = (1 :: nat) \<Longrightarrow>
   concat (map (\<lambda>(k, c). replicate k (g c)) (zip ns cs)) = map g cs"
  by (induction ns cs rule: list_induct2) simp_all

text \<open>
  Claim C4, as amended. For a chunk size \<open>C\<close> above 0, a run of the transfer loop that
  returns a record sends the \<^verbatim>\<open>Content-Range\<close> values of the chunks
  \<open>(start, min C (len - start))\<close> from 0 on, in ascending order, each value once per try
  of its chunk: at most as often as the pacer's bound and, with a bound above 0, at least
  once. The chunks cover the bytes \<open>0 .. len - 1\<close> contiguously, each byte once. A run
  with as many round trips as chunks sends exactly the values of the chunks, each once:
  for 10 bytes in chunks of 4 these are 0-3/10, 4-7/10, 8-9/10. (As the claim stands,
  the values sent would be disjoint intervals: below, in a run of 10 bytes in chunks of
  4 that returns the record and whose second chunk meets two transport errors, the value
  of that chunk is sent three times.)
\<close>

theorem chunk_ranges_in_order:
  assumes "resumableUpload_Upload e rx w = Some (Inr f, rx', w')"
    and "0 < chunkSize e"
  shows "\<exists>new ns. w' = w @ new
    \<and> length ns = length (chunks_from (chunkSize e) (ContentLength rx) 0)
    \<and> (\<forall>k\<in>set ns. k \<le> retries e \<and> (0 < retries e \<longrightarrow> 0 < k))
    \<and> sent_ranges new
      = concat (map (\<lambda>(k, c). replicate k (content_range (ContentLength rx) c))
          (zip ns (chunks_from (chunkSize e) (ContentLength rx) 0)))
    \<and> (length (outcomes new) = length (chunks_from (chunkSize e) (ContentLength rx) 0) \<longrightarrow>
        sent_ranges new
        = map (content_range (ContentLength rx)) (chunks_from (chunkSize e) (ContentLength rx) 0))
    \<and> concat (map (\<lambda>(s, n). [s..s + n - 1]) (chunks_from (chunkSize e) (ContentLength rx) 0))
      = [0..ContentLength rx - 1]
    \<and> (\<forall>c\<in>set (chunks_from (chunkSize e) (ContentLength rx) 0).
         snd c = min (chunkSize e) (ContentLength rx - fst c))"
proof -
  let ?cs = "chunks_from (chunkSize e) (ContentLength rx) 0"
  let ?g = "content_range (ContentLength rx)"
  from assms(1) have run: "upload_loop e 0 0 rx w = Some (Inr f, rx', w')"
    by (simp add: resumableUpload_Upload_def split: if_splits)
  from upload_loop_ranges [OF run] assms(2) obtain new ns where new:
    "w' = w @ new"
    "length ns = length ?cs"
    "\<forall>k\<in>set ns. k \<le> retries e \<and> (0 < retries e \<longrightarrow> 0 < k)"
    "sent_ranges new = concat (map (\<lambda>(k, c). replicate k (?g c)) (zip ns ?cs))"
    by auto
  have exact: "sent_ranges new = map ?g ?cs" if one: "length (outcomes new) = length ?cs"
  proof -
    from new(2,4) one have total: "sum_list ns = length ns"
      using length_tries_ranges [of ns ?cs ?g] length_sent_ranges [of new] by simp
    show ?thesis
    proof (cases "0 < retries e")
      case True
      with new(3) have "\<forall>k\<in>set ns. 0 < k"
        by simp
      from one_try_each [OF this total] new(2,4) show ?thesis
        by (simp add: one_try_ranges)
    next
      case False
      with new(3) have "\<forall>k\<in>set ns. k = 0"
        by simp
      then have "sum_list ns = 0"
        by (induction ns) simp_all
      with total new(2) have "ns = []" "?cs = []"
        by simp_all
      with new(4) show ?thesis
        by simp
    qed
  qed
  show ?thesis
    using new exact chunks_from_cover [OF assms(2)] chunks_from_length
    by (intro exI [of _ new] exI [of _ ns]) blast
qed

theorem chunk_ranges_in_order_witness:
  "resumableUpload_Upload scenario_A (session 10) []
   = Some (Inr ''f1'', (session 10)\<lparr>ret := Some ''f1''\<rparr>,
       [] @ tries_events (chunk_req 4 ''bytes 0-3/10'') [resp 308 [] '''']
       @ tries_events (chunk_req 4 ''bytes 4-7/10'') [resp 308 [] '''']
       @ tries_events (chunk_req 2 ''bytes 8-9/10'') [resp 201 [] ''f1''])
   \<and> 0 < chunkSize scenario_A
   \<and> (\<exists>new ns. [] @ tries_events (chunk_req 4 ''bytes 0-3/10'') [resp 308 [] '''']
         @ tries_events (chunk_req 4 ''bytes 4-7/10'') [resp 308 [] '''']
         @ tries_events (chunk_req 2 ''bytes 8-9/10'') [resp 201 [] ''f1''] = [] @ new
       \<and> length ns = length (chunks_from (chunkSize scenario_A) (ContentLength (session 10)) 0)
       \<and> (\<forall>k\<in>set ns. k \<le> retries scenario_A \<and> (0 < retries scenario_A \<longrightarrow> 0 < k))
       \<and> sent_ranges new
         = concat (map (\<lambda>(k, c). replicate k (content_range (ContentLength (session 10)) c))
             (zip ns (chunks_from (chunkSize scenario_A) (ContentLength (session 10)) 0)))
       \<and> (length (outcomes new)
           = length (chunks_from (chunkSize scenario_A) (ContentLength (session 10)) 0) \<longrightarrow>
          sent_ranges new
          = map (content_range (ContentLength (session 10)))
              (chunks_from (chunkSize scenario_A) (ContentLength (session 10)) 0))
       \<and> concat (map (\<lambda>(s, n). [s..s + n - 1])
            (chunks_from (chunkSize scenario_A) (ContentLength (session 10)) 0))
         = [0..ContentLength (session 10) - 1]
       \<and> (\<forall>c\<in>set (chunks_from (chunkSize scenario_A) (ContentLength (session 10)) 0).
            snd c = min (chunkSize scenario_A) (ContentLength (session 10) - fst c)))
   \<and> length (outcomes (tries_events (chunk_req 4 ''bytes 0-3/10'') [resp 308 [] '''']
         @ tries_events (chunk_req 4 ''bytes 4-7/10'') [resp 308 [] '''']
         @ tries_events (chunk_req 2 ''bytes 8-9/10'') [resp 201 [] ''f1'']))
      = length (chunks_from (chunkSize scenario_A) (ContentLength (session 10)) 0)
   \<and> chunks_from (chunkSize scenario_A) (ContentLength (session 10)) 0 = [(0, 4), (4, 4), (8, 2)]
   \<and> sent_ranges (tries_events (chunk_req 4 ''bytes 0-3/10'') [resp 308 [] '''']
         @ tries_events (chunk_req 4 ''bytes 4-7/10'') [resp 308 [] '''']
         @ tries_events (chunk_req 2 ''bytes 8-9/10'') [resp 201 [] ''f1''])
      = [''bytes 0-3/10'', ''bytes 4-7/10'', ''bytes 8-9/10'']"
proof -
  have run: "resumableUpload_Upload scenario_A (session 10) []
   = Some (Inr ''f1'', (session 10)\<lparr>ret := Some ''f1''\<rparr>,
       [] @ tries_events (chunk_req 4 ''bytes 0-3/10'') [resp 308 [] '''']
       @ tries_events (chunk_req 4 ''bytes 4-7/10'') [resp 308 [] '''']
       @ tries_events (chunk_req 2 ''bytes 8-9/10'') [resp 201 [] ''f1''])"
    by code_simp
  have C: "0 < chunkSize scenario_A"
    by code_simp
  have one: "length (outcomes (tries_events (chunk_req 4 ''bytes 0-3/10'') [resp 308 [] '''']
         @ tries_events (chunk_req 4 ''bytes 4-7/10'') [resp 308 [] '''']
         @ tries_events (chunk_req 2 ''bytes 8-9/10'') [resp 201 [] ''f1'']))
      = length (chunks_from (chunkSize scenario_A) (ContentLength (session 10)) 0)"
    by code_simp
  have chunks: "chunks_from (chunkSize scenario_A) (ContentLength (session 10)) 0
    = [(0, 4), (4, 4), (8, 2)]"
    by code_simp
  have ranges: "sent_ranges (tries_events (chunk_req 4 ''bytes 0-3/10'') [resp 308 [] '''']
         @ tries_events (chunk_req 4 ''bytes 4-7/10'') [resp 308 [] '''']
         @ tries_events (chunk_req 2 ''bytes 8-9/10'') [resp 201 [] ''f1''])
      = [''bytes 0-3/10'', ''bytes 4-7/10'', ''bytes 8-9/10'']"
    by code_simp
  from run C one chunks ranges chunk_ranges_in_order [OF run C] show ?thesis
    by (intro conjI)
qed

theorem chunk_ranges_in_order_counterexample:
  "resumableUpload_Upload scenario_B (session 10) []
   = Some (Inr ''f1'', (session 10)\<lparr>ret := Some ''f1''\<rparr>,
       tries_events (chunk_req 4 ''bytes 0-3/10'') [resp 308 [] '''']
       @ tries_events (chunk_req 4 ''bytes 4-7/10'')
           [Fail ''connection reset'' None, Fail ''connection reset'' None, resp 308 [] '''']
       @ tries_events (chunk_req 2 ''bytes 8-9/10'') [resp 201 [] ''f1''])
   \<and> sent_ranges
       (tries_events (chunk_req 4 ''bytes 0-3/10'') [resp 308 [] '''']
        @ tries_events (chunk_req 4 ''bytes 4-7/10'')
            [Fail ''connection reset'' None, Fail ''connection reset'' None, resp 308 [] '''']
        @ tries_events (chunk_req 2 ''bytes 8-9/10'') [resp 201 [] ''f1''])
     = [''bytes 0-3/10'', ''bytes 4-7/10'', ''bytes 4-7/10'', ''bytes 4-7/10'', ''bytes 8-9/10'']"
  by code_simp

text \<open>
  Claim C7, as amended. A try whose round trip brings a response without a transport
  error, with status 308, or with status 200 or 201 and a body that decodes without
  error, is a success whatever the classifier answers: the closure returns no retry and no
  error. A try whose round trip reports a transport error is reported with the code 599
  whatever response came with the error, and the closure returns what the classifier
  answers. (As the claim stands, a transport error with a response of status 308 would be
  a success: below it is retried, with its error.)
\<close>

theorem status_override:
  "(makeRequest e rx start n = Some req \<and> client e w req = Ok res
     \<and> (StatusCode res = 308
        \<or> (StatusCode res = 200 \<or> StatusCode res = 201)
          \<and> fst (Decode e (Body res) (ret rx)) = None) \<longrightarrow>
    (\<exists>s. sendChunk e start n (sc, rx) w = Some ((False, None), s, w @ [RoundTrip req (Ok res)])))
   \<and> (makeRequest e rx start n = Some req \<and> client e w req = Fail msg r \<longrightarrow>
      sendChunk e start n (sc, rx) w
      = Some (shouldRetry e (Some (TransportError msg)), (599, rx),
          w @ [RoundTrip req (Fail msg r)]))"
  by (auto simp: sendChunk_seen seen_def verdict_def CheckResponse_def
      split: prod.splits option.splits)

theorem status_override_witness:
  "(makeRequest (scripted [resp 308 [] '''']) (session 10) 0 4
      = Some (chunk_req 4 ''bytes 0-3/10'')
    \<and> client (scripted [resp 308 [] '''']) [] (chunk_req 4 ''bytes 0-3/10'')
      = Ok \<lparr>StatusCode = 308, Header = [], Body = ''''\<rparr>
    \<and> (StatusCode \<lparr>StatusCode = 308, Header = [], Body = ''''\<rparr> = 308
       \<or> (StatusCode \<lparr>StatusCode = 308, Header = [], Body = ''''\<rparr> = 200
           \<or> StatusCode \<lparr>StatusCode = 308, Header = [], Body = ''''\<rparr> = 201)
         \<and> fst (Decode (scripted [resp 308 [] ''''])
               (Body \<lparr>StatusCode = 308, Header = [], Body = ''''\<rparr>) (ret (session 10)))
           = None))
   \<and> (\<exists>s. sendChunk (scripted [resp 308 [] '''']) 0 4 (0, session 10) []
         = Some ((False, None), s,
             [] @ [RoundTrip (chunk_req 4 ''bytes 0-3/10'')
                     (Ok \<lparr>StatusCode = 308, Header = [], Body = ''''\<rparr>)]))
   \<and> (makeRequest (scripted [Fail ''connection reset'' None]) (session 10) 0 4
      = Some (chunk_req 4 ''bytes 0-3/10'')
    \<and> client (scripted [Fail ''connection reset'' None]) [] (chunk_req 4 ''bytes 0-3/10'')
      = Fail ''connection reset'' None)
   \<and> sendChunk (scripted [Fail ''connection reset'' None]) 0 4 (0, session 10) []
      = Some (shouldRetry (scripted [Fail ''connection reset'' None])
                (Some (TransportError ''connection reset'')),
          (599, session 10),
          [] @ [RoundTrip (chunk_req 4 ''bytes 0-3/10'') (Fail ''connection reset'' None)])"
proof -
  have a: "makeRequest (scripted [resp 308 [] '''']) (session 10) 0 4
      = Some (chunk_req 4 ''bytes 0-3/10'')
    \<and> client (scripted [resp 308 [] '''']) [] (chunk_req 4 ''bytes 0-3/10'')
      = Ok \<lparr>StatusCode = 308, Header = [], Body = ''''\<rparr>
    \<and> (StatusCode \<lparr>StatusCode = 308, Header = [], Body = ''''\<rparr> = 308
       \<or> (StatusCode \<lparr>StatusCode = 308, Header = [], Body = ''''\<rparr> = 200
           \<or> StatusCode \<lparr>StatusCode = 308, Header = [], Body = ''''\<rparr> = 201)
         \<and> fst (Decode (scripted [resp 308 [] ''''])
               (Body \<lparr>StatusCode = 308, Header = [], Body = ''''\<rparr>) (ret (session 10)))
           = None)"
    by code_simp
  have b: "makeRequest (scripted [Fail ''connection reset'' None]) (session 10) 0 4
      = Some (chunk_req 4 ''bytes 0-3/10'')
    \<and> client (scripted [Fail ''connection reset'' None]) [] (chunk_req 4 ''bytes 0-3/10'')
      = Fail ''connection reset'' None"
    by code_simp
  note thm1 = status_override [where e = "scripted [resp 308 [] '''']" and rx = "session 10"
      and start = 0 and n = 4 and req = "chunk_req 4 ''bytes 0-3/10''" and w = "[]"
      and sc = 0 and res = "\<lparr>StatusCode = 308, Header = [], Body = ''''\<rparr>",
      THEN conjunct1, rule_format, OF a]
  note thm2 = status_override [where e = "scripted [Fail ''connection reset'' None]"
      and rx = "session 10" and start = 0 and n = 4 and req = "chunk_req 4 ''bytes 0-3/10''"
      and w = "[]" and sc = 0 and msg = "''connection reset''" and r = None,
      THEN conjunct2, rule_format, OF b]
  from a thm1 b thm2 show ?thesis
    by (elim conjE) (intro conjI; assumption)
qed

theorem status_override_counterexample:
  "sendChunk
     (scripted [Fail ''connection reset'' (Some \<lparr>StatusCode = 308, Header = [], Body = ''''\<rparr>)])
     0 4 (0, session 10) []
   = Some ((True, Some (TransportError ''connection reset'')), (599, session 10),
       [RoundTrip (chunk_req 4 ''bytes 0-3/10'')
          (Fail ''connection reset'' (Some \<lparr>StatusCode = 308, Header = [], Body = ''''\<rparr>))])"
  by code_simp

section \<open>The negotiation and the whole upload\<close>



lemma pacer_tries_sendChunk_returns:
  "makeRequest e rx start n = Some req \<Longrightarrow>
   pacer_tries k (sendChunk e start n) err (sc, rx) w \<noteq> None"
proof (induction k arbitrary: err sc rx w)
  case 0
  then show ?case by simp
next
  case (Suc k)
  have "makeRequest e (rx\<lparr>ret := r\<rparr>) start n = Some req" for r
    by (simp add: makeRequest_ret Suc.prems)
  from Suc.IH [OF this] show ?case
    by (cases "verdict e (seen e (ret rx) (client e (w @ [BeginCall]) req))")
      (simp add: sendChunk_seen [OF Suc.prems])
qed

lemma upload_loop_returns:
  assumes "0 < chunkSize e" and "urlParses e (URI rx)"
  shows "upload_loop e start sc rx w \<noteq> None"
  using assms(2)
proof (induction "nat (ContentLength rx - start)" arbitrary: start sc rx w rule: less_induct)
  case less
  show ?case
  proof (cases "start < ContentLength rx")
    case False
    then show ?thesis
      by (subst upload_loop.simps) (simp split: option.splits)
  next
    case True
    define n where "n = (if chunkSize e \<le> ContentLength rx - start then chunkSize e
      else ContentLength rx - start)"
    with True assms(1) have n: "0 < n"
      by simp
    from less.prems obtain req where req: "makeRequest e rx start n = Some req"
      by (simp add: makeRequest_def)
    from pacer_tries_sendChunk_returns [OF req, where k = "retries e" and err = None
        and sc = sc and w = w]
    obtain err1 sc1 rx1 w1 where
      call: "pacer_tries (retries e) (sendChunk e start n) None (sc, rx) w
        = Some (err1, (sc1, rx1), w1)"
      by (cases "pacer_tries (retries e) (sendChunk e start n) None (sc, rx) w") auto
    from pacer_tries_sendChunk [OF call, of None] obtain r where "rx1 = rx\<lparr>ret := r\<rparr>"
      by auto
    then have same: "ContentLength rx1 = ContentLength rx" "URI rx1 = URI rx"
      by simp_all
    show ?thesis
    proof (cases err1)
      case (Some err)
      with True call show ?thesis
        by (subst upload_loop.simps) (simp add: n_def [symmetric] pacer_Call_def)
    next
      case None
      have "nat (ContentLength rx1 - (start + n)) < nat (ContentLength rx - start)"
        using True n by (simp add: same)
      moreover have "urlParses e (URI rx1)"
        using less.prems same by simp
      ultimately have "upload_loop e (start + n) sc1 rx1 w1 \<noteq> None"
        by (rule less.hyps)
      with None True call show ?thesis
        by (subst upload_loop.simps) (simp add: n_def [symmetric] pacer_Call_def)
    qed
  qed
qed



text \<open>
  Claim C3, as amended. For an upload of size 0 the loop is not entered: no chunk request
  is issued, all that happens is the negotiation, and the upload returns an error, the
  error of the negotiation or, after a negotiation without error, the incomplete-upload
  failure with the code 0; the negotiation never fills \<^verbatim>\<open>rx.ret\<close>. (As the claim stands,
  the upload would not end with no chunk sent and no result at once: below it does.)
\<close>

theorem zero_length_upload:
  assumes "Fs_Upload e 0 contentType fileID info remote' w = Some (r, w')"
  shows "\<exists>eo res. pacer_Call e (negotiate e 0 contentType fileID info) None w = Some (eo, res, w')
    \<and> r = Inl (case eo of Some err \<Rightarrow> err | None \<Rightarrow> IncompleteUpload 0)"
  using assms
  by (auto simp: Fs_Upload_def resumableUpload_Upload_def upload_loop.simps [of _ 0 0] Let_def
      split: option.splits if_splits)

theorem zero_length_upload_witness:
  "Fs_Upload (scripted [resp 200 [(''Location'', ''https://upload/session/2'')] ''''])
     0 ''text/plain'' ''abc'' ''{}'' ''a.txt'' []
   = Some (Inl (IncompleteUpload 0),
       tries_events
         ((negotiation_req 0)\<lparr>Method := ''PATCH'',
            URL := ''https://www.googleapis.com/upload/drive/v3/files/abc'',
            Query := [(''alt'', ''json''), (''fields'', ''id''), (''setModifiedDate'', ''true''),
                      (''uploadType'', ''resumable'')]\<rparr>)
         [resp 200 [(''Location'', ''https://upload/session/2'')] ''''])
   \<and> (\<exists>eo res.
         pacer_Call (scripted [resp 200 [(''Location'', ''https://upload/session/2'')] ''''])
           (negotiate (scripted [resp 200 [(''Location'', ''https://upload/session/2'')] ''''])
              0 ''text/plain'' ''abc'' ''{}'') None []
         = Some (eo, res,
             tries_events
               ((negotiation_req 0)\<lparr>Method := ''PATCH'',
                  URL := ''https://www.googleapis.com/upload/drive/v3/files/abc'',
                  Query := [(''alt'', ''json''), (''fields'', ''id''),
                            (''setModifiedDate'', ''true''), (''uploadType'', ''resumable'')]\<rparr>)
               [resp 200 [(''Location'', ''https://upload/session/2'')] ''''])
       \<and> (Inl (IncompleteUpload 0) :: error + string)
         = Inl (case eo of Some err \<Rightarrow> err | None \<Rightarrow> IncompleteUpload 0))"
proof -
  have run: "Fs_Upload (scripted [resp 200 [(''Location'', ''https://upload/session/2'')] ''''])
     0 ''text/plain'' ''abc'' ''{}'' ''a.txt'' []
   = Some (Inl (IncompleteUpload 0),
       tries_events
         ((negotiation_req 0)\<lparr>Method := ''PATCH'',
            URL := ''https://www.googleapis.com/upload/drive/v3/files/abc'',
            Query := [(''alt'', ''json''), (''fields'', ''id''), (''setModifiedDate'', ''true''),
                      (''uploadType'', ''resumable'')]\<rparr>)
         [resp 200 [(''Location'', ''https://upload/session/2'')] ''''])"
    by code_simp
  from run zero_length_upload [OF run] show ?thesis
    by (intro conjI)
qed

theorem zero_length_upload_counterexample:
  "Fs_Upload (scripted [resp 200 [(''Location'', ''https://upload/session/1'')] ''''])
     0 ''text/plain'' '''' ''{}'' ''a.txt'' []
   = Some (Inl (IncompleteUpload 0),
       tries_events (negotiation_req 0)
         [resp 200 [(''Location'', ''https://upload/session/1'')] ''''])"
  by code_simp

lemma answers_refused:
  assumes "\<forall>w. \<exists>msg r. client e w req = Fail msg r"
  shows "answers e w req outs \<Longrightarrow> \<forall>out\<in>set outs. \<exists>msg r. out = Fail msg r"
proof (induction outs arbitrary: w)
  case Nil
  then show ?case by simp
next
  case (Cons out outs)
  from assms obtain msg r where "client e (w @ [BeginCall]) req = Fail msg r"
    by blast
  with Cons.prems have "out = Fail msg r"
    and "answers e (w @ [BeginCall, RoundTrip req out, EndCall]) req outs"
    by simp_all
  with Cons.IH show ?case
    by auto
qed

lemma seen_all_refused:
  assumes "outs \<noteq> []" and "\<forall>out\<in>set outs. \<exists>msg r. out = Fail msg r"
  shows "\<exists>msg r. last outs = Fail msg r
    \<and> seen_all e st outs = (599, Some (TransportError msg), snd (snd st))"
  using assms
proof (induction outs arbitrary: st)
  case Nil
  then show ?case by simp
next
  case (Cons out outs)
  from Cons.prems(2) obtain msg r where out: "out = Fail msg r"
    by auto
  then have st: "seen e (snd (snd st)) out = (599, Some (TransportError msg), snd (snd st))"
    by (simp add: seen_def)
  show ?case
  proof (cases "outs = []")
    case True
    with out st show ?thesis
      by simp
  next
    case False
    from Cons.IH [OF False, of "seen e (snd (snd st)) out"] Cons.prems(2) False st
    show ?thesis
      by simp
  qed
qed

text \<open>
  Claim C2, as amended. When the negotiation ends with an error, \<^verbatim>\<open>Fs.Upload\<close> returns
  that error and nothing happens after the negotiation. The \<^verbatim>\<open>Location\<close> header is not
  checked: after a negotiation without error whose response has none, the session URI is
  the empty string, and the operation still fails with an error, but not before the chunk
  loop. For a size above 0 (a chunk size above 0, at least one try, the empty string
  accepted by the URL parser) the loop is entered and the first chunk goes to the client
  with the empty URL, once per try of the pacer; with a client that refuses a request
  whose URL is empty and a classifier that hands the error back, nothing else is sent and
  the upload returns the transport error of the last try. For a size of 0 or below no
  chunk is sent and the upload returns the incomplete-upload failure with the code 0.
  What follows a session URI that the URL parser rejects is not part of the claim as
  amended. (As the claim stands, no chunk request would be issued after a response
  without \<^verbatim>\<open>Location\<close>: below the chunk goes to the client, and its error is what the
  upload returns.)
\<close>

theorem negotiation_without_Location:
  "(pacer_Call e (negotiate e size' contentType fileID info) None w = Some (Some err, res0, w1)
      \<longrightarrow> Fs_Upload e size' contentType fileID info remote' w = Some (Inl err, w1))
   \<and> (pacer_Call e (negotiate e size' contentType fileID info) None w = Some (None, Some res, w1)
       \<and> map_of (Header res) ''Location'' = None
       \<and> 0 < size' \<and> 0 < chunkSize e \<and> 0 < retries e \<and> urlParses e ''''
       \<and> (\<forall>w req. \<exists>msg r. client e w (req\<lparr>URL := ''''\<rparr>) = Fail msg r)
       \<and> (\<forall>x. snd (shouldRetry e x) = x)
      \<longrightarrow> (\<exists>outs msg r. outs \<noteq> [] \<and> length outs \<le> retries e \<and> last outs = Fail msg r
            \<and> Fs_Upload e size' contentType fileID info remote' w
              = Some (Inl (TransportError msg),
                  w1 @ tries_events
                    \<lparr>Method = ''POST'', URL = '''', Query = [],
                     ReqHeader =
                       [(''Content-Range'', content_range size' (0, min (chunkSize e) size')),
                        (''Content-Type'', contentType)],
                     ReqContentLength = min (chunkSize e) size'\<rparr> outs)))
   \<and> (pacer_Call e (negotiate e size' contentType fileID info) None w = Some (None, Some res, w1)
       \<and> size' \<le> 0 \<and> 0 \<le> chunkSize e
      \<longrightarrow> Fs_Upload e size' contentType fileID info remote' w
          = Some (Inl (IncompleteUpload 0), w1))"
proof (intro conjI impI)
  assume "pacer_Call e (negotiate e size' contentType fileID info) None w
    = Some (Some err, res0, w1)"
  then show "Fs_Upload e size' contentType fileID info remote' w = Some (Inl err, w1)"
    by (simp add: Fs_Upload_def)
next
  assume h: "pacer_Call e (negotiate e size' contentType fileID info) None w
      = Some (None, Some res, w1)
    \<and> map_of (Header res) ''Location'' = None
    \<and> 0 < size' \<and> 0 < chunkSize e \<and> 0 < retries e \<and> urlParses e ''''
    \<and> (\<forall>w req. \<exists>msg r. client e w (req\<lparr>URL := ''''\<rparr>) = Fail msg r)
    \<and> (\<forall>x. snd (shouldRetry e x) = x)"
  define rx :: "'a resumableUpload" where
    "rx = \<lparr>remote = remote', URI = '''', MediaType = contentType, ContentLength = size',
      ret = None\<rparr>"
  define req where "req =
    \<lparr>Method = ''POST'', URL = '''', Query = [],
     ReqHeader = [(''Content-Range'', content_range size' (0, min (chunkSize e) size')),
                  (''Content-Type'', contentType)],
     ReqContentLength = min (chunkSize e) size'\<rparr>"
  define n where "n = (if chunkSize e \<le> ContentLength rx - 0 then chunkSize e
    else ContentLength rx - 0)"
  from h have up: "Fs_Upload e size' contentType fileID info remote' w
    = (case upload_loop e 0 0 rx w1 of None \<Rightarrow> None | Some (r, rx', w'') \<Rightarrow> Some (r, w''))"
    by (simp add: Fs_Upload_def Header_Get_def resumableUpload_Upload_def rx_def)
  from h have mk: "makeRequest e rx 0 n = Some req"
    by (auto simp: makeRequest_def rx_def req_def n_def content_range_def min_def)
  from h have pos: "0 < ContentLength rx"
    by (simp add: rx_def)
  from pacer_tries_sendChunk_returns [OF mk, of "retries e" None 0 w1]
  obtain err' sc' rx' w' where
    call: "pacer_tries (retries e) (sendChunk e 0 n) None (0, rx) w1
      = Some (err', (sc', rx'), w')"
    by (cases "pacer_tries (retries e) (sendChunk e 0 n) None (0, rx) w1") auto
  from pacer_tries_sendChunk [OF call, where terr = None] h mk obtain outs where outs:
    "length outs \<le> retries e" "outs \<noteq> []" "answers e w1 req outs"
    "w' = w1 @ tries_events req outs"
    "err' = snd (verdict e (seen_all e (0, None, ret rx) outs))"
    by auto
  have "URL req = ''''"
    by (simp add: req_def)
  then have "req\<lparr>URL := ''''\<rparr> = req"
    by (simp add: req_def)
  with h have "\<forall>w. \<exists>msg r. client e w req = Fail msg r"
    by metis
  from answers_refused [OF this outs(3)]
  have "\<forall>out\<in>set outs. \<exists>msg r. out = Fail msg r" .
  from seen_all_refused [OF outs(2) this, of e "(0, None, ret rx)"] obtain msg r where
    last: "last outs = Fail msg r"
    and st: "seen_all e (0, None, ret rx) outs = (599, Some (TransportError msg), ret rx)"
    by auto
  from h have "err' = Some (TransportError msg)"
    by (simp add: outs(5) st verdict_def)
  with call pos have "upload_loop e 0 0 rx w1 = Some (Inl (TransportError msg), rx', w')"
    by (subst upload_loop.simps) (auto simp: n_def pacer_Call_def Let_def)
  with up outs(4) have "Fs_Upload e size' contentType fileID info remote' w
    = Some (Inl (TransportError msg), w1 @ tries_events req outs)"
    by simp
  with outs(1,2) last show "\<exists>outs msg r. outs \<noteq> [] \<and> length outs \<le> retries e
      \<and> last outs = Fail msg r
      \<and> Fs_Upload e size' contentType fileID info remote' w
        = Some (Inl (TransportError msg),
            w1 @ tries_events
              \<lparr>Method = ''POST'', URL = '''', Query = [],
               ReqHeader =
                 [(''Content-Range'', content_range size' (0, min (chunkSize e) size')),
                  (''Content-Type'', contentType)],
               ReqContentLength = min (chunkSize e) size'\<rparr> outs)"
    unfolding req_def by blast
next
  assume h: "pacer_Call e (negotiate e size' contentType fileID info) None w
      = Some (None, Some res, w1)
    \<and> size' \<le> 0 \<and> 0 \<le> chunkSize e"
  then show "Fs_Upload e size' contentType fileID info remote' w
    = Some (Inl (IncompleteUpload 0), w1)"
    by (simp add: Fs_Upload_def resumableUpload_Upload_def upload_loop.simps [of _ 0 0])
qed

theorem negotiation_without_Location_witness:
  "pacer_Call (scripted [resp 403 [] ''forbidden''])
      (negotiate (scripted [resp 403 [] ''forbidden'']) 10 ''text/plain'' '''' ''{}'') None []
    = Some (Some (ApiError 403 ''forbidden''),
        Some \<lparr>StatusCode = 403, Header = [], Body = ''forbidden''\<rparr>,
        tries_events (negotiation_req 10) [resp 403 [] ''forbidden''])
   \<and> Fs_Upload (scripted [resp 403 [] ''forbidden'']) 10 ''text/plain'' '''' ''{}'' ''a.txt'' []
    = Some (Inl (ApiError 403 ''forbidden'') :: error + string,
        tries_events (negotiation_req 10) [resp 403 [] ''forbidden''])
   \<and> (pacer_Call no_session (negotiate no_session 10 ''text/plain'' '''' ''{}'') None []
      = Some (None, Some \<lparr>StatusCode = 200, Header = [], Body = ''''\<rparr>,
          tries_events (negotiation_req 10) [resp 200 [] ''''])
     \<and> map_of (Header \<lparr>StatusCode = 200, Header = [], Body = ''''\<rparr>) ''Location'' = None
     \<and> (0 :: int) < 10 \<and> 0 < chunkSize no_session \<and> 0 < retries no_session
     \<and> urlParses no_session ''''
     \<and> (\<forall>w req. \<exists>msg r. client no_session w (req\<lparr>URL := ''''\<rparr>) = Fail msg r)
     \<and> (\<forall>x. snd (shouldRetry no_session x) = x))
   \<and> (\<exists>outs msg r. outs \<noteq> [] \<and> length outs \<le> retries no_session \<and> last outs = Fail msg r
       \<and> Fs_Upload no_session 10 ''text/plain'' '''' ''{}'' ''a.txt'' []
         = Some (Inl (TransportError msg) :: error + string,
             tries_events (negotiation_req 10) [resp 200 [] '''']
             @ tries_events
                 \<lparr>Method = ''POST'', URL = '''', Query = [],
                  ReqHeader =
                    [(''Content-Range'', content_range 10 (0, min (chunkSize no_session) 10)),
                     (''Content-Type'', ''text/plain'')],
                  ReqContentLength = min (chunkSize no_session) 10\<rparr> outs))
   \<and> Fs_Upload no_session 10 ''text/plain'' '''' ''{}'' ''a.txt'' []
      = Some (Inl (TransportError ''unsupported protocol scheme''),
          tries_events (negotiation_req 10) [resp 200 [] '''']
          @ tries_events ((chunk_req 4 ''bytes 0-3/10'')\<lparr>URL := ''''\<rparr>)
              [Fail ''unsupported protocol scheme'' None])
   \<and> (pacer_Call no_session (negotiate no_session 0 ''text/plain'' '''' ''{}'') None []
      = Some (None, Some \<lparr>StatusCode = 200, Header = [], Body = ''''\<rparr>,
          tries_events (negotiation_req 0) [resp 200 [] ''''])
     \<and> (0 :: int) \<le> 0 \<and> 0 \<le> chunkSize no_session)
   \<and> Fs_Upload no_session 0 ''text/plain'' '''' ''{}'' ''a.txt'' []
      = Some (Inl (IncompleteUpload 0) :: error + string,
          tries_events (negotiation_req 0) [resp 200 [] ''''])"
proof -
  have a: "pacer_Call (scripted [resp 403 [] ''forbidden''])
      (negotiate (scripted [resp 403 [] ''forbidden'']) 10 ''text/plain'' '''' ''{}'') None []
    = Some (Some (ApiError 403 ''forbidden''),
        Some \<lparr>StatusCode = 403, Header = [], Body = ''forbidden''\<rparr>,
        tries_events (negotiation_req 10) [resp 403 [] ''forbidden''])"
    by code_simp
  have b1: "pacer_Call no_session (negotiate no_session 10 ''text/plain'' '''' ''{}'') None []
      = Some (None, Some \<lparr>StatusCode = 200, Header = [], Body = ''''\<rparr>,
          tries_events (negotiation_req 10) [resp 200 [] ''''])"
    by code_simp
  have b2: "map_of (Header \<lparr>StatusCode = 200, Header = [], Body = ''''\<rparr>) ''Location'' = None"
    by simp
  have b3: "(0 :: int) < 10"
    by simp
  have b4: "0 < chunkSize no_session"
    by code_simp
  have b5: "0 < retries no_session"
    by code_simp
  have b6: "urlParses no_session ''''"
    by code_simp
  have b7: "\<forall>w req. \<exists>msg r. client no_session w (req\<lparr>URL := ''''\<rparr>) = Fail msg r"
    by (simp add: no_session_def)
  have b8: "\<forall>x. snd (shouldRetry no_session x) = x"
    by (simp add: no_session_def scripted_def classify_hands_back)
  have run: "Fs_Upload no_session 10 ''text/plain'' '''' ''{}'' ''a.txt'' []
      = Some (Inl (TransportError ''unsupported protocol scheme''),
          tries_events (negotiation_req 10) [resp 200 [] '''']
          @ tries_events ((chunk_req 4 ''bytes 0-3/10'')\<lparr>URL := ''''\<rparr>)
              [Fail ''unsupported protocol scheme'' None])"
    by code_simp
  have c1: "pacer_Call no_session (negotiate no_session 0 ''text/plain'' '''' ''{}'') None []
      = Some (None, Some \<lparr>StatusCode = 200, Header = [], Body = ''''\<rparr>,
          tries_events (negotiation_req 0) [resp 200 [] ''''])"
    by code_simp
  have c2: "(0 :: int) \<le> 0"
    by simp
  have c3: "0 \<le> chunkSize no_session"
    by code_simp
  note thm1 = negotiation_without_Location [where remote' = "''a.txt''",
      THEN conjunct1, rule_format, OF a]
  note thm2 = negotiation_without_Location [where remote' = "''a.txt''",
      THEN conjunct2, THEN conjunct1, rule_format,
      OF conjI [OF b1 conjI [OF b2 conjI [OF b3 conjI [OF b4 conjI [OF b5
        conjI [OF b6 conjI [OF b7 b8]]]]]]]]
  note thm3 = negotiation_without_Location [where remote' = "''a.txt''",
      THEN conjunct2, THEN conjunct2, rule_format, OF conjI [OF c1 conjI [OF c2 c3]]]
  from a thm1 b1 b2 b3 b4 b5 b6 b7 b8 thm2 run c1 c2 c3 thm3 show ?thesis
    by (intro conjI)
qed

theorem negotiation_without_Location_counterexample:
  "Fs_Upload (scripted [resp 200 [] '''', Fail ''unsupported protocol scheme'' None])
     10 ''text/plain'' '''' ''{}'' ''a.txt'' []
   = Some (Inl (TransportError ''unsupported protocol scheme''),
       tries_events (negotiation_req 10) [resp 200 [] '''']
       @ tries_events ((chunk_req 4 ''bytes 0-3/10'')\<lparr>URL := ''''\<rparr>)
           [Fail ''unsupported protocol scheme'' None])"
  by code_simp

end
